theory Spec2Isabelle
  imports Complex_Main
begin

section \<open>Python strings\<close>

text \<open>
  A Python \<open>str\<close> is a sequence of Unicode code points, and \<open>len\<close> counts code points;
  translated text is Cyrillic, so a string is a list of code points here.  \<open>ascii\<close>
  embeds an ASCII literal.
\<close>

type_synonym ustring = "nat list"

definition ascii :: "string \<Rightarrow> ustring" where
  "ascii s = map of_char s"

text \<open>The characters for which \<open>str.isspace\<close> holds; \<open>str.split()\<close> and \<open>str.strip()\<close>
  without arguments use them.\<close>

definition is_space :: "nat \<Rightarrow> bool" where
  "is_space c \<longleftrightarrow>
     (9 \<le> c \<and> c \<le> 13) \<or> (28 \<le> c \<and> c \<le> 32) \<or> c = 133 \<or> c = 160 \<or> c = 5760 \<or>
     (8192 \<le> c \<and> c \<le> 8202) \<or> c = 8232 \<or> c = 8233 \<or> c = 8239 \<or> c = 8287 \<or> c = 12288"

text \<open>\<open>text.split()\<close>: the maximal runs of non-whitespace, in order.\<close>

fun split_from :: "ustring \<Rightarrow> ustring \<Rightarrow> ustring list" where
  "split_from cur [] = (if cur = [] then [] else [cur])"
| "split_from cur (c # cs) =
     (if is_space c then (if cur = [] then split_from [] cs else cur # split_from [] cs)
      else split_from (cur @ [c]) cs)"

definition split :: "ustring \<Rightarrow> ustring list" where
  "split s = split_from [] s"

text \<open>\<open>' '.join(line)\<close>.\<close>

fun join_sp :: "ustring list \<Rightarrow> ustring" where
  "join_sp [] = []"
| "join_sp [w] = w"
| "join_sp (w # v # ws) = w @ [32] @ join_sp (v # ws)"

text \<open>\<open>s.strip()\<close>.\<close>

definition strip :: "ustring \<Rightarrow> ustring" where
  "strip s = rev (dropWhile is_space (rev (dropWhile is_space s)))"

section \<open>Errors\<close>

datatype py_error = ZeroDivisionError | TypeError | KeyError | IndexError | AttributeError
  | JSONDecodeError | ValueError | NameError | RuntimeError

section \<open>text\_utils.is\_formula\<close>

definition formula_indicators :: "nat list" where
  "formula_indicators =
     [61, 43, 45, 42, 47, 94, 8747, 8721, 8719, 8730, 8776, 8800, 8804, 8805]"

text \<open>
  \<open>math_symbols_count / len(text)\<close> raises on the empty string whenever the first
  disjunct is false, which it is there (the count is 0).  The quotient is compared with
  0.05 over the reals.
\<close>

definition is_formula :: "ustring \<Rightarrow> py_error + bool" where
  "is_formula text =
     (let math_symbols_count = length (filter (\<lambda>c. c \<in> set formula_indicators) text);
          words = length (split text)
      in if math_symbols_count > 1 \<and> words < 5 then Inr True
         else if length text = 0 then Inl ZeroDivisionError
         else Inr (real math_symbols_count / real (length text) > 0.05))"

section \<open>translate.create\_clean\_translated\_pdf: fitting one paragraph\<close>

type_synonym bbox = "real \<times> real \<times> real \<times> real"

definition bx0 :: "bbox \<Rightarrow> real" where "bx0 b = fst b"
definition by0 :: "bbox \<Rightarrow> real" where "by0 b = fst (snd b)"
definition bx1 :: "bbox \<Rightarrow> real" where "bx1 b = fst (snd (snd b))"
definition by1 :: "bbox \<Rightarrow> real" where "by1 b = snd (snd (snd b))"

text \<open>\<open>max_width = bbox[2] - bbox[0] - 4\<close> and the height bound \<open>bbox[3] - bbox[1] - 5\<close>.\<close>

definition max_width :: "bbox \<Rightarrow> real" where
  "max_width b = bx1 b - bx0 b - 4"

definition height_limit :: "bbox \<Rightarrow> real" where
  "height_limit b = by1 b - by0 b - 5"

definition candidate_sizes :: "nat list" where
  "candidate_sizes = [11, 10, 9, 8, 7, 6]"

text \<open>
  The test loop over the words at one font size (lines 383 to 409).  \<open>ins y l fs\<close> says
  whether \<open>test_page.insert_text((50, y), l, fontsize=fs)\<close> returns rather than raises.
  \<open>None\<close> is \<open>fits = False; break\<close>; otherwise the pending line and the cursor come back.
\<close>

fun fit_loop :: "(nat \<Rightarrow> ustring \<Rightarrow> nat \<Rightarrow> bool) \<Rightarrow> nat \<Rightarrow> real \<Rightarrow> real \<Rightarrow> nat \<Rightarrow>
    ustring list \<Rightarrow> nat \<Rightarrow> ustring list \<Rightarrow> (ustring list \<times> nat) option" where
  "fit_loop ins fs W H y line current_y [] = Some (line, current_y)"
| "fit_loop ins fs W H y line current_y (word # ws) =
     (if line = [] then fit_loop ins fs W H y [word] current_y ws
      else if real (length (join_sp (line @ [word]))) * real fs * 0.5 < W
        then fit_loop ins fs W H y (line @ [word]) current_y ws
      else if \<not> ins current_y (join_sp line) fs then None
      else if real (current_y + (fs + 2) - y) > H then None
      else fit_loop ins fs W H y [word] (current_y + (fs + 2)) ws)"

text \<open>The body of \<open>for font_size in [11, 10, 9, 8, 7, 6]\<close> up to \<open>if fits\<close>.\<close>

definition size_fits :: "(nat \<Rightarrow> ustring \<Rightarrow> nat \<Rightarrow> bool) \<Rightarrow> bbox \<Rightarrow> ustring list \<Rightarrow> nat \<Rightarrow> bool" where
  "size_fits ins b ws fs =
     (case fit_loop ins fs (max_width b) (height_limit b) (50 + fs) [] (50 + fs) ws of
        None \<Rightarrow> False
      | Some (line, current_y) \<Rightarrow> line = [] \<or> ins current_y (join_sp line) fs)"

text \<open>The loop leaves at the first size that fits; \<open>None\<close> is \<open>best_font_size = None\<close>.\<close>

definition best_font_size :: "(nat \<Rightarrow> ustring \<Rightarrow> nat \<Rightarrow> bool) \<Rightarrow> bbox \<Rightarrow> ustring list \<Rightarrow> nat option" where
  "best_font_size ins b ws = List.find (size_fits ins b ws) candidate_sizes"

section \<open>translate.create\_clean\_translated\_pdf: drawing one paragraph\<close>

datatype message =
    SkippingFormula nat
  | TranslationNotFound nat
  | SuccessWithFontSize nat nat
  | CouldNotFitText nat

datatype draw_op =
    Print message
  | DrawRect bbox
  | InsertText real real ustring nat
  | InsertImage bbox "ustring list"

datatype outcome = Done | Raised py_error

text \<open>
  The commit loop (lines 445 to 463) on the destination page.  \<open>dins x y l fs\<close> says
  whether \<open>dst_page.insert_text((x, y), l, fontsize=fs)\<close> returns; no handler surrounds
  these calls, so a failure leaves the function.  \<open>RuntimeError\<close> stands for whatever
  the library raises.
\<close>

fun commit_loop :: "(real \<Rightarrow> real \<Rightarrow> ustring \<Rightarrow> nat \<Rightarrow> bool) \<Rightarrow> nat \<Rightarrow> real \<Rightarrow> real \<Rightarrow>
    ustring list \<Rightarrow> real \<Rightarrow> ustring list \<Rightarrow> draw_op list \<times> outcome" where
  "commit_loop dins fs x W line current_y [] =
     (if line = [] then ([], Done)
      else if dins x current_y (join_sp line) fs
        then ([InsertText x current_y (join_sp line) fs], Done)
      else ([], Raised RuntimeError))"
| "commit_loop dins fs x W line current_y (word # ws) =
     (if line = [] then commit_loop dins fs x W [word] current_y ws
      else if real (length (join_sp (line @ [word]))) * real fs * 0.5 < W
        then commit_loop dins fs x W (line @ [word]) current_y ws
      else if \<not> dins x current_y (join_sp line) fs then ([], Raised RuntimeError)
      else (case commit_loop dins fs x W [word] (current_y + real (fs + 2)) ws of
              (ops, r) \<Rightarrow> (InsertText x current_y (join_sp line) fs # ops, r)))"

text \<open>
  The cache is a dictionary of dictionaries; \<open>h\<close> is \<open>get_text_md5\<close>.
\<close>

type_synonym cache = "ustring \<rightharpoonup> (ustring \<rightharpoonup> ustring)"

definition cache_lookup :: "cache \<Rightarrow> ustring \<Rightarrow> ustring \<Rightarrow> ustring option" where
  "cache_lookup c file_md5 text_md5 =
     (case c file_md5 of None \<Rightarrow> None | Some d \<Rightarrow> d text_md5)"

text \<open>Lines 345 to 350: the cached translation, or the original text and a warning.\<close>

definition lookup_translation :: "(ustring \<Rightarrow> ustring) \<Rightarrow> cache \<Rightarrow> ustring \<Rightarrow> nat \<Rightarrow> ustring \<Rightarrow>
    draw_op list \<times> ustring" where
  "lookup_translation h c file_md5 i text =
     (case cache_lookup c file_md5 (h text) of
        Some t \<Rightarrow> ([], t)
      | None \<Rightarrow> ([Print (TranslationNotFound (i + 1))], text))"

text \<open>The body of \<open>for i, (text, bbox) in enumerate(paragraphs)\<close> (lines 338 to 465).\<close>

definition render_paragraph :: "(ustring \<Rightarrow> ustring) \<Rightarrow> (nat \<Rightarrow> ustring \<Rightarrow> nat \<Rightarrow> bool) \<Rightarrow>
    (real \<Rightarrow> real \<Rightarrow> ustring \<Rightarrow> nat \<Rightarrow> bool) \<Rightarrow> cache \<Rightarrow> ustring \<Rightarrow> nat \<Rightarrow> ustring \<Rightarrow> bbox \<Rightarrow>
    draw_op list \<times> outcome" where
  "render_paragraph h ins dins c file_md5 i text b =
     (case is_formula text of
        Inl e \<Rightarrow> ([], Raised e)
      | Inr True \<Rightarrow> ([Print (SkippingFormula (i + 1))], Done)
      | Inr False \<Rightarrow>
          (case lookup_translation h c file_md5 i text of
             (pre, translated_text) \<Rightarrow>
               (case best_font_size ins b (split translated_text) of
                  None \<Rightarrow> (pre @ [Print (CouldNotFitText (i + 1))], Done)
                | Some fs \<Rightarrow>
                    (case commit_loop dins fs (bx0 b + 2) (max_width b) [] (by0 b + real fs)
                            (split translated_text) of
                       (ops, r) \<Rightarrow>
                         (pre @ [Print (SuccessWithFontSize fs (i + 1)), DrawRect b] @ ops,
                          r)))))"

text \<open>The paragraphs of one page in order; an exception ends the loop.\<close>

fun render_paragraphs :: "(ustring \<Rightarrow> ustring) \<Rightarrow> (nat \<Rightarrow> ustring \<Rightarrow> nat \<Rightarrow> bool) \<Rightarrow>
    (real \<Rightarrow> real \<Rightarrow> ustring \<Rightarrow> nat \<Rightarrow> bool) \<Rightarrow> cache \<Rightarrow> ustring \<Rightarrow> nat \<Rightarrow>
    (ustring \<times> bbox) list \<Rightarrow> draw_op list \<times> outcome" where
  "render_paragraphs h ins dins c file_md5 i [] = ([], Done)"
| "render_paragraphs h ins dins c file_md5 i ((text, b) # ps) =
     (case render_paragraph h ins dins c file_md5 i text b of
        (ops, Raised e) \<Rightarrow> (ops, Raised e)
      | (ops, Done) \<Rightarrow>
          (case render_paragraphs h ins dins c file_md5 (i + 1) ps of
             (ops', r) \<Rightarrow> (ops @ ops', r)))"

section \<open>Values read from JSON\<close>

text \<open>
  What \<open>response.json()\<close> and \<open>json.load\<close> return: \<open>None\<close>, booleans, numbers, strings,
  lists, and dictionaries with string keys in insertion order.
\<close>

datatype json = JNull | JBool bool | JNum real | JStr ustring | JArr "json list"
  | JObj "(ustring \<times> json) list"

definition bind_err :: "'e + 'a \<Rightarrow> ('a \<Rightarrow> 'e + 'b) \<Rightarrow> 'e + 'b" where
  "bind_err m f = (case m of Inl e \<Rightarrow> Inl e | Inr x \<Rightarrow> f x)"

fun starts_with :: "'a list \<Rightarrow> 'a list \<Rightarrow> bool" where
  "starts_with [] ys = True"
| "starts_with (x # xs) [] = False"
| "starts_with (x # xs) (y # ys) = (x = y \<and> starts_with xs ys)"

fun contains_seq :: "'a list \<Rightarrow> 'a list \<Rightarrow> bool" where
  "contains_seq n [] = (n = [])"
| "contains_seq n (c # cs) = (starts_with n (c # cs) \<or> contains_seq n cs)"

text \<open>\<open>key in v\<close> for a string \<open>key\<close>: key membership in a dictionary, element equality
  in a list, substring in a string, \<open>TypeError\<close> on the rest.\<close>

fun py_in :: "ustring \<Rightarrow> json \<Rightarrow> py_error + bool" where
  "py_in k (JObj kvs) = Inr (k \<in> set (map fst kvs))"
| "py_in k (JArr xs) = Inr (JStr k \<in> set xs)"
| "py_in k (JStr s) = Inr (contains_seq k s)"
| "py_in k v = Inl TypeError"

text \<open>\<open>v[key]\<close> for a string \<open>key\<close>.\<close>

fun py_getitem :: "json \<Rightarrow> ustring \<Rightarrow> py_error + json" where
  "py_getitem (JObj kvs) k = (case map_of kvs k of None \<Rightarrow> Inl KeyError | Some v \<Rightarrow> Inr v)"
| "py_getitem v k = Inl TypeError"

text \<open>\<open>v[0]\<close>.\<close>

fun py_first :: "json \<Rightarrow> py_error + json" where
  "py_first (JArr []) = Inl IndexError"
| "py_first (JArr (x # xs)) = Inr x"
| "py_first (JStr []) = Inl IndexError"
| "py_first (JStr (c # cs)) = Inr (JStr [c])"
| "py_first (JObj kvs) = Inl KeyError"
| "py_first v = Inl TypeError"

text \<open>\<open>v.strip()\<close>.\<close>

fun py_strip :: "json \<Rightarrow> py_error + ustring" where
  "py_strip (JStr s) = Inr (strip s)"
| "py_strip v = Inl AttributeError"

section \<open>translate.translate\_text\<close>

text \<open>
  Lines 62 to 66: \<open>Inr (Some t)\<close> is the stripped translation, \<open>Inr None\<close> the branch
  that returns the original text, \<open>Inl e\<close> an exception raised inside the \<open>try\<close>.
\<close>

definition read_translation :: "json \<Rightarrow> py_error + ustring option" where
  "read_translation result =
     bind_err (py_in (ascii ''response'') result) (\<lambda>has_response.
       if \<not> has_response then Inr None
       else bind_err (py_getitem result (ascii ''response'')) (\<lambda>r.
         bind_err (py_in (ascii ''choices'') r) (\<lambda>has_choices.
           if \<not> has_choices then Inr None
           else bind_err (py_getitem r (ascii ''choices'')) (\<lambda>choices.
             bind_err (py_first choices) (\<lambda>choice.
               bind_err (py_getitem choice (ascii ''message'')) (\<lambda>msg.
                 bind_err (py_getitem msg (ascii ''content'')) (\<lambda>content.
                   bind_err (py_strip content) (\<lambda>translated. Inr (Some translated)))))))))"

text \<open>
  One \<open>requests.post\<close>: it raises, or it answers with a status code and a body;
  the body is \<open>None\<close> when \<open>response.json()\<close> raises (an empty body, or text that is
  no JSON).
\<close>

datatype reply = PostRaised | Reply int "json option"

record api_config =
  api_key :: "ustring option"
  api_endpoint :: "ustring option"

text \<open>\<open>not api_key or not api_endpoint\<close>: \<open>None\<close> and the empty string are false.\<close>

definition config_incomplete :: "api_config \<Rightarrow> bool" where
  "config_incomplete cfg \<longleftrightarrow>
     api_key cfg = None \<or> api_key cfg = Some [] \<or>
     api_endpoint cfg = None \<or> api_endpoint cfg = Some []"

definition max_retries :: nat where
  "max_retries = 3"

text \<open>\<open>if file_md5 not in cache: cache[file_md5] = {}\<close>, then
  \<open>cache[file_md5][text_md5] = v\<close>.\<close>

definition cache_put :: "cache \<Rightarrow> ustring \<Rightarrow> ustring \<Rightarrow> ustring \<Rightarrow> cache" where
  "cache_put c file_md5 text_md5 v =
     c(file_md5 \<mapsto> (case c file_md5 of None \<Rightarrow> Map.empty | Some d \<Rightarrow> d)(text_md5 \<mapsto> v))"

text \<open>
  The retry loop (lines 52 to 94).  \<open>net n\<close> is the outcome of the run's \<open>n\<close>-th request
  and \<open>calls\<close> counts the requests issued so far.  The result is the returned string,
  the cache and the new count.
\<close>

function translate_attempts :: "(nat \<Rightarrow> reply) \<Rightarrow> ustring \<Rightarrow> ustring \<Rightarrow> ustring \<Rightarrow> cache \<Rightarrow>
    nat \<Rightarrow> nat \<Rightarrow> ustring \<times> cache \<times> nat" where
  "translate_attempts net text file_md5 text_md5 c calls attempt =
     (if attempt \<ge> max_retries then (text, c, calls)
      else case net calls of
        PostRaised \<Rightarrow>
          if attempt < max_retries - 1
          then translate_attempts net text file_md5 text_md5 c (calls + 1) (attempt + 1)
          else (text, c, calls + 1)
      | Reply status_code body \<Rightarrow>
          if status_code = 200 then
            (case (case body of None \<Rightarrow> Inl JSONDecodeError
                   | Some result \<Rightarrow> read_translation result) of
               Inr (Some translated) \<Rightarrow>
                 (translated, cache_put c file_md5 text_md5 translated, calls + 1)
             | Inr None \<Rightarrow> (text, c, calls + 1)
             | Inl e \<Rightarrow>
                 if attempt < max_retries - 1
                 then translate_attempts net text file_md5 text_md5 c (calls + 1) (attempt + 1)
                 else (text, c, calls + 1))
          else if attempt < max_retries - 1
            then translate_attempts net text file_md5 text_md5 c (calls + 1) (attempt + 1)
          else (text, c, calls + 1))"
  by pat_completeness auto
termination
  by (relation "measure (\<lambda>(net, text, file_md5, text_md5, c, calls, attempt). max_retries - attempt)")
    (auto simp: max_retries_def)

declare translate_attempts.simps [simp del]

text \<open>\<open>h\<close> is \<open>get_text_md5\<close>, \<open>cfg\<close> what \<open>load_api_config()\<close> returns.\<close>

definition translate_text :: "(ustring \<Rightarrow> ustring) \<Rightarrow> api_config \<Rightarrow> (nat \<Rightarrow> reply) \<Rightarrow> ustring \<Rightarrow>
    ustring \<Rightarrow> cache \<Rightarrow> bool \<Rightarrow> nat \<Rightarrow> ustring \<times> cache \<times> nat" where
  "translate_text h cfg net text file_md5 c ignore_cache calls =
     (let text_md5 = h text
      in case (if ignore_cache then None else cache_lookup c file_md5 text_md5) of
           Some v \<Rightarrow> (v, c, calls)
         | None \<Rightarrow>
             if config_incomplete cfg then (text, c, calls)
             else translate_attempts net text file_md5 text_md5 c calls 0)"

section \<open>main: the translate command\<close>

text \<open>Lines 88 to 96: translate one paragraph, then store what came back.\<close>

definition translate_paragraph :: "(ustring \<Rightarrow> ustring) \<Rightarrow> api_config \<Rightarrow> (nat \<Rightarrow> reply) \<Rightarrow>
    ustring \<Rightarrow> bool \<Rightarrow> cache \<times> nat \<Rightarrow> ustring \<Rightarrow> cache \<times> nat" where
  "translate_paragraph h cfg net file_md5 ignore_cache st text =
     (case translate_text h cfg net text file_md5 (fst st) ignore_cache (snd st) of
        (translated_text, c', calls') \<Rightarrow>
          (cache_put c' file_md5 (h text) translated_text, calls'))"

fun translate_paragraphs :: "(ustring \<Rightarrow> ustring) \<Rightarrow> api_config \<Rightarrow> (nat \<Rightarrow> reply) \<Rightarrow>
    ustring \<Rightarrow> bool \<Rightarrow> cache \<times> nat \<Rightarrow> (ustring \<times> bbox) list \<Rightarrow> cache \<times> nat" where
  "translate_paragraphs h cfg net file_md5 ignore_cache st [] = st"
| "translate_paragraphs h cfg net file_md5 ignore_cache st ((text, b) # ps) =
     translate_paragraphs h cfg net file_md5 ignore_cache
       (translate_paragraph h cfg net file_md5 ignore_cache st text) ps"

text \<open>
  The globals set from the arguments.  \<open>DEBUG_END_PAGE\<close> is assigned only when
  \<open>--end-page\<close> is given; reading it otherwise raises \<open>NameError\<close>.
\<close>

record debug_settings =
  DEBUG_MODE :: bool
  DEBUG_START_PAGE :: int
  DEBUG_END_PAGE :: "int option"

definition skip_page :: "debug_settings \<Rightarrow> int \<Rightarrow> py_error + bool" where
  "skip_page dbg page_num =
     (if \<not> DEBUG_MODE dbg then Inr False
      else if page_num < DEBUG_START_PAGE dbg then Inr True
      else case DEBUG_END_PAGE dbg of
             None \<Rightarrow> Inl NameError
           | Some e \<Rightarrow> Inr (page_num > e))"

type_synonym paragraphs = "(int \<times> (ustring \<times> bbox) list) list"

fun translate_pages :: "(ustring \<Rightarrow> ustring) \<Rightarrow> api_config \<Rightarrow> (nat \<Rightarrow> reply) \<Rightarrow>
    ustring \<Rightarrow> bool \<Rightarrow> debug_settings \<Rightarrow> cache \<times> nat \<Rightarrow> paragraphs \<Rightarrow> py_error + cache \<times> nat" where
  "translate_pages h cfg net file_md5 ignore_cache dbg st [] = Inr st"
| "translate_pages h cfg net file_md5 ignore_cache dbg st ((page_num, ps) # rest) =
     bind_err (skip_page dbg page_num) (\<lambda>skip.
       translate_pages h cfg net file_md5 ignore_cache dbg
         (if skip then st else translate_paragraphs h cfg net file_md5 ignore_cache st ps) rest)"

section \<open>translate.fallback\_insert\_text\_as\_image\<close>

text \<open>
  The wrapping of lines 198 to 226; \<open>tw l\<close> is the width \<open>font.getbbox(l)\<close> measures
  and \<open>width\<close> is \<open>int(bbox[2] - bbox[0])\<close>.  The lines are drawn on a bitmap that
  \<open>page.insert_image(bbox, ...)\<close> places in the bbox.
\<close>

fun fallback_lines :: "(ustring \<Rightarrow> int) \<Rightarrow> int \<Rightarrow> ustring list \<Rightarrow> ustring list \<Rightarrow> ustring list" where
  "fallback_lines tw width current_line [] =
     (if current_line \<noteq> [] then [join_sp current_line] else [])"
| "fallback_lines tw width current_line (word # ws) =
     (if tw (join_sp (current_line @ [word])) \<le> width - 10
        then fallback_lines tw width (current_line @ [word]) ws
      else if current_line \<noteq> []
        then join_sp current_line # fallback_lines tw width [word] ws
      else word # fallback_lines tw width current_line ws)"

text \<open>Python's \<open>int(x)\<close> on a float: truncation towards zero.\<close>

definition py_int :: "real \<Rightarrow> int" where
  "py_int x = (if x \<ge> 0 then \<lfloor>x\<rfloor> else \<lceil>x\<rceil>)"

definition fallback_insert_text_as_image :: "(ustring \<Rightarrow> int) \<Rightarrow> ustring \<Rightarrow> bbox \<Rightarrow> draw_op list" where
  "fallback_insert_text_as_image tw text b =
     [InsertImage b (fallback_lines tw (py_int (bx1 b - bx0 b)) [] (split text))]"

section \<open>ocr.is\_image\_based\_pdf\<close>

text \<open>
  A page as the classifier sees it: the type field \<open>block[6]\<close> of each block of
  \<open>page.get_text("blocks")\<close>, and the length of \<open>page.get_images(full=True)\<close>.
\<close>

record page_info =
  block_types :: "nat list"
  image_count :: nat

definition page_ratio :: "page_info \<Rightarrow> real" where
  "page_ratio p =
     (let text_blocks_count = length (filter (\<lambda>t. t = 0) (block_types p));
          image_blocks = image_count p
      in if text_blocks_count + image_blocks > 0
         then real text_blocks_count / real (text_blocks_count + image_blocks)
         else 0)"

text \<open>
  The pages that add nothing leave \<open>text_content_ratio\<close> as it is, which is adding 0.
  The average divides by \<open>min(total_pages, 5)\<close> with no test on it.  Ratios are reals.
\<close>

definition is_image_based_pdf :: "page_info list \<Rightarrow> real \<Rightarrow> py_error + bool" where
  "is_image_based_pdf doc threshold =
     (let total_pages = length doc;
          text_content_ratio = sum_list (map page_ratio (take (min total_pages 5) doc))
      in if min total_pages 5 = 0 then Inl ZeroDivisionError
         else Inr (text_content_ratio / real (min total_pages 5) < threshold))"

section \<open>ocr.create\_translated\_pdf\_ocr\_approach\<close>

text \<open>
  The arguments after \<open>paragraphs_by_page\<close> arrive untyped: \<open>main\<close> passes the cache,
  the file digest and the font option where the function expects \<open>debug_mode\<close>,
  \<open>start_page\<close> and \<open>end_page\<close>.
\<close>

datatype pyval = PyNone | PyBool bool | PyInt int | PyStr ustring | PyDict cache

fun truthy :: "pyval \<Rightarrow> bool" where
  "truthy PyNone = False"
| "truthy (PyBool b) = b"
| "truthy (PyInt n) = (n \<noteq> 0)"
| "truthy (PyStr s) = (s \<noteq> [])"
| "truthy (PyDict d) = (d \<noteq> Map.empty)"

text \<open>\<open>page_num < v\<close> and \<open>page_num > v\<close> for an integer \<open>page_num\<close>.\<close>

fun int_lt :: "int \<Rightarrow> pyval \<Rightarrow> py_error + bool" where
  "int_lt p (PyInt n) = Inr (p < n)"
| "int_lt p (PyBool b) = Inr (p < (if b then 1 else 0))"
| "int_lt p v = Inl TypeError"

fun int_gt :: "int \<Rightarrow> pyval \<Rightarrow> py_error + bool" where
  "int_gt p (PyInt n) = Inr (p > n)"
| "int_gt p (PyBool b) = Inr (p > (if b then 1 else 0))"
| "int_gt p v = Inl TypeError"

text \<open>\<open>debug_mode and (page_num < start_page or page_num > end_page)\<close>.\<close>

definition ocr_skip :: "pyval \<Rightarrow> pyval \<Rightarrow> pyval \<Rightarrow> int \<Rightarrow> py_error + bool" where
  "ocr_skip debug_mode start_page end_page page_num =
     (if \<not> truthy debug_mode then Inr False
      else bind_err (int_lt page_num start_page) (\<lambda>before.
             if before then Inr True else int_gt page_num end_page))"

datatype canvas_op =
    DrawImage int
  | SetFont nat
  | Rect real real real real
  | DrawString real real ustring

datatype ocr_page = Copied int | Drawn int "canvas_op list"

text \<open>
  \<open>translate_text(text)\<close> on line 210 gives one of the three positional arguments
  that \<open>translate_text\<close> requires, so the call raises \<open>TypeError\<close> before the body runs.
\<close>

definition translate_text_one_argument :: "ustring \<Rightarrow> py_error + ustring" where
  "translate_text_one_argument text = Inl TypeError"

text \<open>Lines 225 to 239; \<open>sw l\<close> is \<open>c.stringWidth(l, 'CyrillicFont', 11)\<close>.\<close>

fun ocr_lines :: "(ustring \<Rightarrow> real) \<Rightarrow> real \<Rightarrow> ustring list \<Rightarrow> ustring list \<Rightarrow> ustring list" where
  "ocr_lines sw text_width current_line [] =
     (if current_line \<noteq> [] then [join_sp current_line] else [])"
| "ocr_lines sw text_width current_line (word # ws) =
     (if sw (join_sp (current_line @ [word])) \<le> text_width
        then ocr_lines sw text_width (current_line @ [word]) ws
      else if current_line \<noteq> []
        then join_sp current_line # ocr_lines sw text_width [word] ws
      else word # ocr_lines sw text_width [] ws)"

text \<open>Lines 242 to 253: the lines from index \<open>j\<close> on.\<close>

fun ocr_draw_lines :: "real \<Rightarrow> bbox \<Rightarrow> nat \<Rightarrow> ustring list \<Rightarrow> canvas_op list" where
  "ocr_draw_lines height b j [] = []"
| "ocr_draw_lines height b j (line # ls) =
     (let y_pos = height - by0 b - real (j + 1) * 14
      in if y_pos > height - by1 b
         then DrawString (bx0 b + 2) y_pos line # ocr_draw_lines height b (j + 1) ls
         else if j > 0 then [DrawString (bx0 b + 2) (height - by0 b - real j * 14) (ascii ''...'')]
         else [])"

text \<open>The body of the loop over the paragraphs of a page (lines 208 to 253).\<close>

definition ocr_paragraph :: "(ustring \<Rightarrow> real) \<Rightarrow> real \<Rightarrow> ustring \<Rightarrow> bbox \<Rightarrow> py_error + canvas_op list" where
  "ocr_paragraph sw height text b =
     bind_err (translate_text_one_argument text) (\<lambda>translated_text.
       Inr (Rect (bx0 b) (height - by1 b) (bx1 b - bx0 b) (by1 b - by0 b) #
            ocr_draw_lines height b 0
              (ocr_lines sw (bx1 b - bx0 b - 4) [] (split translated_text))))"

fun ocr_paragraphs :: "(ustring \<Rightarrow> real) \<Rightarrow> real \<Rightarrow> (ustring \<times> bbox) list \<Rightarrow> py_error + canvas_op list" where
  "ocr_paragraphs sw height [] = Inr []"
| "ocr_paragraphs sw height ((text, b) # ps) =
     bind_err (ocr_paragraph sw height text b) (\<lambda>ops.
       bind_err (ocr_paragraphs sw height ps) (\<lambda>rest. Inr (ops @ rest)))"

text \<open>\<open>paragraphs_by_page.get(page_num, [])\<close>.\<close>

definition get_paragraphs :: "paragraphs \<Rightarrow> int \<Rightarrow> (ustring \<times> bbox) list" where
  "get_paragraphs pbp page_num = (case map_of pbp page_num of None \<Rightarrow> [] | Some ps \<Rightarrow> ps)"

text \<open>One iteration of the loop over the pages (lines 172 to 266); a page is its
  width and height.\<close>

definition ocr_page_step :: "(ustring \<Rightarrow> real) \<Rightarrow> paragraphs \<Rightarrow> pyval \<Rightarrow> pyval \<Rightarrow> pyval \<Rightarrow>
    int \<Rightarrow> real \<times> real \<Rightarrow> py_error + ocr_page" where
  "ocr_page_step sw pbp debug_mode start_page end_page page_num dims =
     bind_err (ocr_skip debug_mode start_page end_page page_num) (\<lambda>skip.
       if skip then Inr (Copied page_num)
       else if get_paragraphs pbp page_num = [] then Inr (Copied page_num)
       else bind_err (ocr_paragraphs sw (snd dims) (get_paragraphs pbp page_num)) (\<lambda>ops.
              Inr (Drawn page_num (DrawImage page_num # SetFont 11 # ops))))"

fun ocr_pages :: "(ustring \<Rightarrow> real) \<Rightarrow> paragraphs \<Rightarrow> pyval \<Rightarrow> pyval \<Rightarrow> pyval \<Rightarrow>
    int \<Rightarrow> (real \<times> real) list \<Rightarrow> py_error + ocr_page list" where
  "ocr_pages sw pbp debug_mode start_page end_page page_num [] = Inr []"
| "ocr_pages sw pbp debug_mode start_page end_page page_num (dims # doc) =
     bind_err (ocr_page_step sw pbp debug_mode start_page end_page page_num dims) (\<lambda>p.
       bind_err (ocr_pages sw pbp debug_mode start_page end_page (page_num + 1) doc) (\<lambda>rest.
         Inr (p # rest)))"

text \<open>
  The function: \<open>Inr None\<close> when no font is found (it returns before opening anything),
  \<open>Inr (Some pages)\<close> when the output file is written, \<open>Inl e\<close> when it raises, which
  is before the output file is opened.
\<close>

definition create_translated_pdf_ocr_approach :: "bool \<Rightarrow> (ustring \<Rightarrow> real) \<Rightarrow> (real \<times> real) list \<Rightarrow>
    paragraphs \<Rightarrow> pyval \<Rightarrow> pyval \<Rightarrow> pyval \<Rightarrow> py_error + ocr_page list option" where
  "create_translated_pdf_ocr_approach font_found sw doc pbp debug_mode start_page end_page =
     (if \<not> font_found then Inr None
      else bind_err (ocr_pages sw pbp debug_mode start_page end_page 0 doc) (\<lambda>pages.
             Inr (Some pages)))"

text \<open>The call of \<open>main\<close> (lines 121 to 123): cache, digest and font go where the
  debug arguments are.\<close>

definition regenerate_image_based :: "bool \<Rightarrow> (ustring \<Rightarrow> real) \<Rightarrow> (real \<times> real) list \<Rightarrow>
    paragraphs \<Rightarrow> cache \<Rightarrow> ustring \<Rightarrow> ustring option \<Rightarrow> py_error + ocr_page list option" where
  "regenerate_image_based font_found sw doc pbp translation_cache file_md5 font =
     create_translated_pdf_ocr_approach font_found sw doc pbp
       (PyDict translation_cache) (PyStr file_md5)
       (case font of None \<Rightarrow> PyNone | Some f \<Rightarrow> PyStr f)"

section \<open>main: the paragraphs file\<close>

text \<open>\<open>str(page_num)\<close>: the decimal digits, after a minus sign below zero.\<close>

function digits_of :: "nat \<Rightarrow> ustring" where
  "digits_of n = (if n < 10 then [48 + n] else digits_of (n div 10) @ [48 + n mod 10])"
  by pat_completeness auto
termination
  by (relation "measure (\<lambda>n. n)") auto

declare digits_of.simps [simp del]

definition py_str_int :: "int \<Rightarrow> ustring" where
  "py_str_int i = (if i < 0 then 45 # digits_of (nat (- i)) else digits_of (nat i))"

text \<open>
  \<open>int(page_num_str)\<close>: surrounding whitespace is dropped, a sign may lead, and single
  underscores may separate ASCII digits.  Digits of other scripts, which Python also
  reads, are \<open>ValueError\<close> here.
\<close>

fun parse_digits :: "ustring \<Rightarrow> nat \<Rightarrow> bool \<Rightarrow> nat option" where
  "parse_digits [] acc after_digit = (if after_digit then Some acc else None)"
| "parse_digits (c # cs) acc after_digit =
     (if 48 \<le> c \<and> c \<le> 57 then parse_digits cs (10 * acc + (c - 48)) True
      else if c = 95 \<and> after_digit then parse_digits cs acc False
      else None)"

definition py_int_str :: "ustring \<Rightarrow> py_error + int" where
  "py_int_str s =
     (case strip s of
        [] \<Rightarrow> Inl ValueError
      | c # cs \<Rightarrow>
          if c = 45 then
            (case parse_digits cs 0 False of None \<Rightarrow> Inl ValueError | Some n \<Rightarrow> Inr (- int n))
          else if c = 43 then
            (case parse_digits cs 0 False of None \<Rightarrow> Inl ValueError | Some n \<Rightarrow> Inr (int n))
          else
            (case parse_digits (c # cs) 0 False of None \<Rightarrow> Inl ValueError | Some n \<Rightarrow> Inr (int n)))"

text \<open>\<open>d[k] = v\<close> on a dictionary kept in insertion order.\<close>

fun dict_set :: "('k \<times> 'v) list \<Rightarrow> 'k \<Rightarrow> 'v \<Rightarrow> ('k \<times> 'v) list" where
  "dict_set [] k v = [(k, v)]"
| "dict_set ((k', v') # d) k v = (if k' = k then (k, v) # d else (k', v') # dict_set d k v)"

text \<open>
  Lines 72 to 77.  \<open>json.dump\<close> writes a tuple as an array, so \<open>(text, list(bbox))\<close>
  is the array of the text and the array of the coordinates.  The file is taken to
  hold the value written: what \<open>json.load\<close> returns is \<open>save_paragraphs\<close> of the
  dictionary, numbers included.
\<close>

definition serialize_fragment :: "ustring \<times> bbox \<Rightarrow> json" where
  "serialize_fragment p =
     (case p of (text, b) \<Rightarrow>
        JArr [JStr text, JArr [JNum (bx0 b), JNum (by0 b), JNum (bx1 b), JNum (by1 b)]])"

text \<open>The item of \<open>serializable_data\<close> that one page becomes.\<close>

definition serialized_page :: "int \<times> (ustring \<times> bbox) list \<Rightarrow> ustring \<times> json" where
  "serialized_page p = (py_str_int (fst p), JArr (map serialize_fragment (snd p)))"

fun serialize_pages :: "(ustring \<times> json) list \<Rightarrow> paragraphs \<Rightarrow> (ustring \<times> json) list" where
  "serialize_pages serializable_data [] = serializable_data"
| "serialize_pages serializable_data ((page_num, ps) # rest) =
     serialize_pages
       (dict_set serializable_data (py_str_int page_num) (JArr (map serialize_fragment ps))) rest"

definition save_paragraphs :: "paragraphs \<Rightarrow> json" where
  "save_paragraphs pbp = JObj (serialize_pages [] pbp)"

text \<open>Iterating a value: the elements of a list, the characters of a string, the
  keys of a dictionary.\<close>

fun py_iter :: "json \<Rightarrow> py_error + json list" where
  "py_iter (JArr xs) = Inr xs"
| "py_iter (JStr s) = Inr (map (\<lambda>c. JStr [c]) s)"
| "py_iter (JObj kvs) = Inr (map (\<lambda>kv. JStr (fst kv)) kvs)"
| "py_iter v = Inl TypeError"

text \<open>\<open>for text, bbox in paragraphs\<close> unpacks each element into two.\<close>

definition unpack_pair :: "json \<Rightarrow> py_error + json \<times> json" where
  "unpack_pair v =
     bind_err (py_iter v) (\<lambda>xs. case xs of [a, b] \<Rightarrow> Inr (a, b) | _ \<Rightarrow> Inl ValueError)"

text \<open>\<open>(text, tuple(bbox))\<close>: the text as it is, the bbox as the tuple of its elements.\<close>

type_synonym loaded_fragment = "json \<times> json list"

definition read_fragment :: "json \<Rightarrow> py_error + loaded_fragment" where
  "read_fragment v =
     bind_err (unpack_pair v) (\<lambda>p. bind_err (py_iter (snd p)) (\<lambda>t. Inr (fst p, t)))"

fun read_fragments :: "json list \<Rightarrow> py_error + loaded_fragment list" where
  "read_fragments [] = Inr []"
| "read_fragments (v # vs) =
     bind_err (read_fragment v) (\<lambda>f. bind_err (read_fragments vs) (\<lambda>fs. Inr (f # fs)))"

text \<open>Lines 112 to 116; the list is built before \<open>int(page_num_str)\<close> is evaluated.\<close>

fun deserialize_pages :: "(int \<times> loaded_fragment list) list \<Rightarrow> (ustring \<times> json) list \<Rightarrow>
    py_error + (int \<times> loaded_fragment list) list" where
  "deserialize_pages paragraphs_by_page [] = Inr paragraphs_by_page"
| "deserialize_pages paragraphs_by_page ((page_num_str, v) # rest) =
     bind_err (py_iter v) (\<lambda>items.
       bind_err (read_fragments items) (\<lambda>fs.
         bind_err (py_int_str page_num_str) (\<lambda>page_num.
           deserialize_pages (dict_set paragraphs_by_page page_num fs) rest)))"

fun load_paragraphs :: "json \<Rightarrow> py_error + (int \<times> loaded_fragment list) list" where
  "load_paragraphs (JObj kvs) = deserialize_pages [] kvs"
| "load_paragraphs v = Inl AttributeError"

text \<open>The value a fragment of the extraction has after loading: Python compares the
  two as equal.\<close>

definition fragment_value :: "ustring \<times> bbox \<Rightarrow> loaded_fragment" where
  "fragment_value p =
     (case p of (text, b) \<Rightarrow> (JStr text, [JNum (bx0 b), JNum (by0 b), JNum (bx1 b), JNum (by1 b)]))"

definition paragraphs_value :: "paragraphs \<Rightarrow> (int \<times> loaded_fragment list) list" where
  "paragraphs_value pbp = map (\<lambda>kv. (fst kv, map fragment_value (snd kv))) pbp"

section \<open>main: the regenerate command\<close>

record run_result =
  printed :: "ustring list"
  output_written :: bool
  result :: outcome

definition paragraphs_file_name :: "ustring \<Rightarrow> ustring" where
  "paragraphs_file_name file_md5 = file_md5 @ ascii ''_paragraphs.json''"

definition run_translate_first :: ustring where
  "run_translate_first = ascii ''Run '' @ [39] @ ascii ''translate'' @ [39] @ ascii '' command first.''"

definition missing_paragraphs_message :: "ustring \<Rightarrow> ustring" where
  "missing_paragraphs_message paragraphs_file =
     ascii ''Error: Paragraphs file '' @ paragraphs_file @ ascii '' not found. '' @ run_translate_first"

text \<open>
  Lines 102 to 133.  \<open>files\<close> maps the names of the existing files to what \<open>json.load\<close>
  gives on them, or to \<open>None\<close> when it raises.  \<open>render_ocr\<close> and \<open>render_clean\<close> are the
  two calls that create the PDF: \<open>Inr w\<close> when they return, \<open>w\<close> telling whether the
  output file was written, \<open>Inl e\<close> when they raise; what they print themselves is
  left out.  \<open>is_image_pdf\<close> is the answer of the classifier, which \<open>main\<close> has before
  it looks at the command.
\<close>

definition regenerate_command :: "(ustring \<rightharpoonup> json option) \<Rightarrow> ustring \<Rightarrow> ustring \<Rightarrow> bool \<Rightarrow>
    ((int \<times> loaded_fragment list) list \<Rightarrow> py_error + bool) \<Rightarrow>
    ((int \<times> loaded_fragment list) list \<Rightarrow> py_error + bool) \<Rightarrow> run_result" where
  "regenerate_command files file_md5 output_pdf is_image_pdf render_ocr render_clean =
     (let paragraphs_file = paragraphs_file_name file_md5
      in case files paragraphs_file of
           None \<Rightarrow>
             \<lparr>printed = [missing_paragraphs_message paragraphs_file],
              output_written = False, result = Done\<rparr>
         | Some content \<Rightarrow>
             (case bind_err (case content of None \<Rightarrow> Inl JSONDecodeError | Some j \<Rightarrow> Inr j)
                     load_paragraphs of
                Inl e \<Rightarrow> \<lparr>printed = [], output_written = False, result = Raised e\<rparr>
              | Inr pbp \<Rightarrow>
                  (let creating = (if is_image_pdf
                         then ascii ''Creating translated PDF with image-based approach...''
                         else ascii ''Creating translated PDF with text-based approach...'')
                   in case (if is_image_pdf then render_ocr pbp else render_clean pbp) of
                        Inl e \<Rightarrow>
                          \<lparr>printed = [creating], output_written = False, result = Raised e\<rparr>
                      | Inr w \<Rightarrow>
                          \<lparr>printed = [creating,
                             ascii ''PDF regeneration completed. Output saved to '' @ output_pdf],
                           output_written = w, result = Done\<rparr>)))"

text \<open>
  \<open>main\<close> returns \<open>None\<close> on every path.  Run as \<open>main()\<close> under
  \<open>if __name__ == "__main__"\<close>, or as the console script, which is \<open>sys.exit(main())\<close>,
  that is exit status 0; an exception nobody catches ends the interpreter with status 1.
\<close>

definition exit_status :: "outcome \<Rightarrow> int" where
  "exit_status r = (case r of Done \<Rightarrow> 0 | Raised e \<Rightarrow> 1)"

section \<open>Kinds of attempt\<close>

text \<open>An attempt that ends in a retry, or in the last \<open>return text\<close>: the request
  raises, the status is not 200, or reading the body raises.\<close>

definition attempt_fails :: "reply \<Rightarrow> bool" where
  "attempt_fails r =
     (case r of
        PostRaised \<Rightarrow> True
      | Reply status_code body \<Rightarrow>
          status_code \<noteq> 200 \<or>
          (case body of None \<Rightarrow> True | Some res \<Rightarrow> isl (read_translation res)))"

text \<open>A 200 answer whose JSON has no \<open>response\<close> or no \<open>choices\<close> in it.\<close>

definition attempt_lacks_choices :: "reply \<Rightarrow> bool" where
  "attempt_lacks_choices r =
     (case r of
        PostRaised \<Rightarrow> False
      | Reply status_code body \<Rightarrow>
          status_code = 200 \<and>
          (case body of None \<Rightarrow> False | Some res \<Rightarrow> read_translation res = Inr None))"

text \<open>A 200 answer that carries the translation \<open>t\<close>.\<close>

definition attempt_translates :: "reply \<Rightarrow> ustring \<Rightarrow> bool" where
  "attempt_translates r t =
     (case r of
        PostRaised \<Rightarrow> False
      | Reply status_code body \<Rightarrow>
          status_code = 200 \<and>
          (case body of None \<Rightarrow> False | Some res \<Rightarrow> read_translation res = Inr (Some t)))"

section \<open>Sample inputs\<close>

text \<open>
  \<open>echo_digest\<close> stands for \<open>get_text_md5\<close> in the examples: the functions use the
  digest as a dictionary key and nothing else.
\<close>

definition echo_digest :: "ustring \<Rightarrow> ustring" where
  "echo_digest t = t"

definition sample_config :: api_config where
  "sample_config =
     \<lparr>api_key = Some (ascii ''key''), api_endpoint = Some (ascii ''https://llm.example/v1'')\<rparr>"

definition sample_translation :: ustring where
  "sample_translation = [1082, 1086, 1090]"

definition sample_body :: json where
  "sample_body = JObj [(ascii ''response'', JObj [(ascii ''choices'',
     JArr [JObj [(ascii ''message'', JObj [(ascii ''content'', JStr sample_translation)])]])])]"

text \<open>Every request raises.\<close>

definition net_down :: "nat \<Rightarrow> reply" where
  "net_down n = PostRaised"

text \<open>Every request is answered with the translation.\<close>

definition net_up :: "nat \<Rightarrow> reply" where
  "net_up n = Reply 200 (Some sample_body)"

text \<open>The first answer is a 200 with an empty body, the later ones carry the
  translation.\<close>

definition net_empty_then_up :: "nat \<Rightarrow> reply" where
  "net_empty_then_up n = (if n = 0 then Reply 200 None else Reply 200 (Some sample_body))"

text \<open>The first answer is a 503, the later ones carry the translation.\<close>

definition net_503_then_up :: "nat \<Rightarrow> reply" where
  "net_503_then_up n = (if n = 0 then Reply 503 None else Reply 200 (Some sample_body))"

definition test_insert_ok :: "nat \<Rightarrow> ustring \<Rightarrow> nat \<Rightarrow> bool" where
  "test_insert_ok y l fs = True"

definition test_insert_raises :: "nat \<Rightarrow> ustring \<Rightarrow> nat \<Rightarrow> bool" where
  "test_insert_raises y l fs = False"

definition page_insert_ok :: "real \<Rightarrow> real \<Rightarrow> ustring \<Rightarrow> nat \<Rightarrow> bool" where
  "page_insert_ok x y l fs = True"

definition page_insert_raises :: "real \<Rightarrow> real \<Rightarrow> ustring \<Rightarrow> nat \<Rightarrow> bool" where
  "page_insert_raises x y l fs = False"

definition render_stub :: "(int \<times> loaded_fragment list) list \<Rightarrow> py_error + bool" where
  "render_stub pbp = Inr True"

text \<open>Two boxes, a paragraph and a cache that holds its translation.\<close>

definition small_box :: bbox where "small_box = (72, 100, 112, 110)"
definition wide_box :: bbox where "wide_box = (72, 100, 172, 160)"
definition cat_text :: ustring where "cat_text = ascii ''a big ginger cat''"
definition cat_cache :: cache where
  "cat_cache = cache_put Map.empty (ascii ''d41d'') (echo_digest cat_text)
     (ascii ''bolshoy ryzhiy kot'')"

text \<open>A string width for the canvas, two pages of paragraphs, and a document of
  one text page and three scanned pages.\<close>

definition sample_string_width :: "ustring \<Rightarrow> real" where
  "sample_string_width l = 5.5 * real (length l)"

definition sample_paragraphs :: paragraphs where
  "sample_paragraphs = [(0, [(cat_text, wide_box)]), (2, [])]"

definition scanned_doc :: "page_info list" where
  "scanned_doc =
     [\<lparr>block_types = [0], image_count = 0\<rparr>, \<lparr>block_types = [1], image_count = 1\<rparr>,
      \<lparr>block_types = [1], image_count = 1\<rparr>, \<lparr>block_types = [1], image_count = 1\<rparr>]"

section \<open>Properties of the fitting loop\<close>

lemma join_sp_snoc: "line \<noteq> [] \<Longrightarrow> join_sp (line @ [w]) = join_sp line @ [32] @ w"
  by (induction line rule: join_sp.induct) auto

lemma length_join_sp_snoc:
  "line \<noteq> [] \<Longrightarrow> length (join_sp (line @ [w])) = length (join_sp line) + 1 + length w"
  by (simp add: join_sp_snoc)

lemma width_mono:
  assumes "fs' \<le> fs" "n' \<le> n" "real n * real fs * 0.5 < W"
  shows "real n' * real fs' * 0.5 < W"
proof -
  have "real n' * real fs' \<le> real n * real fs"
    using assms(1,2) by (simp add: mult_mono)
  then show ?thesis using assms(3) by simp
qed

lemma fit_loop_mono:
  assumes le: "fs' \<le> fs"
    and ok: "\<And>y l. ins y l fs'"
  shows "fit_loop ins fs W H y line cy ws = Some r \<Longrightarrow>
     (line = [] \<longleftrightarrow> line' = []) \<Longrightarrow> y \<le> cy \<Longrightarrow> y' \<le> cy' \<Longrightarrow>
     (cy = y \<or> real (cy - y) \<le> H) \<Longrightarrow>
     (cy' - y' + (fs' + 2) \<le> cy - y \<or>
        (cy' - y' \<le> cy - y \<and> length (join_sp line') \<le> length (join_sp line))) \<Longrightarrow>
     \<exists>r'. fit_loop ins fs' W H y' line' cy' ws = Some r'"
proof (induction ws arbitrary: line line' cy cy' r)
  case Nil
  then show ?case by simp
next
  case (Cons w ws)
  show ?case
  proof (cases "line = []")
    case True
    then have l': "line' = []" using Cons.prems(2) by simp
    have "fit_loop ins fs W H y [w] cy ws = Some r" using Cons.prems(1) True by simp
    from Cons.IH[OF this, of "[w]" cy'] Cons.prems True l'
    show ?thesis by auto
  next
    case False
    then have l': "line' \<noteq> []" using Cons.prems(2) by simp
    let ?L = "length (join_sp line)" and ?L' = "length (join_sp line')"
    have J: "length (join_sp (line @ [w])) = ?L + 1 + length w"
      using False by (rule length_join_sp_snoc)
    have J': "length (join_sp (line' @ [w])) = ?L' + 1 + length w"
      using l' by (rule length_join_sp_snoc)
    show ?thesis
    proof (cases "real (length (join_sp (line @ [w]))) * real fs * 0.5 < W")
      case nb: True
      then have run: "fit_loop ins fs W H y (line @ [w]) cy ws = Some r"
        using Cons.prems(1) False by simp
      show ?thesis
      proof (cases "real (length (join_sp (line' @ [w]))) * real fs' * 0.5 < W")
        case True
        have "\<exists>r'. fit_loop ins fs' W H y' (line' @ [w]) cy' ws = Some r'"
          using Cons.IH[OF run, of "line' @ [w]" cy'] Cons.prems(3-6) J J' by auto
        then show ?thesis using True l' by simp
      next
        case br': False
        have notB: "\<not> (cy' - y' \<le> cy - y \<and> ?L' \<le> ?L)"
        proof
          assume "cy' - y' \<le> cy - y \<and> ?L' \<le> ?L"
          then have "length (join_sp (line' @ [w])) \<le> length (join_sp (line @ [w]))"
            using J J' by simp
          from width_mono[OF le this nb] br' show False by simp
        qed
        then have A: "cy' - y' + (fs' + 2) \<le> cy - y" using Cons.prems(6) by blast
        then have pos: "cy \<noteq> y" by auto
        then have hb: "real (cy - y) \<le> H" using Cons.prems(5) by blast
        have h': "\<not> real (cy' + (fs' + 2) - y') > H"
        proof -
          have "cy' + (fs' + 2) - y' = cy' - y' + (fs' + 2)" using Cons.prems(4) by simp
          then have "real (cy' + (fs' + 2) - y') \<le> real (cy - y)" using A by simp
          then show ?thesis using hb by linarith
        qed
        have e1: "(line @ [w] = []) \<longleftrightarrow> ([w] = [])" by simp
        have e2: "y' \<le> cy' + (fs' + 2)" using Cons.prems(4) by simp
        have e3: "cy' + (fs' + 2) - y' \<le> cy - y" using A Cons.prems(4) by simp
        have e4: "length (join_sp [w]) \<le> length (join_sp (line @ [w]))" using J by simp
        have "\<exists>r'. fit_loop ins fs' W H y' [w] (cy' + (fs' + 2)) ws = Some r'"
          by (rule Cons.IH[OF run e1 Cons.prems(3) e2 Cons.prems(5)]) (use e3 e4 in blast)
        then show ?thesis using br' l' ok h' by simp
      qed
    next
      case br: False
      then have i1: "ins cy (join_sp line) fs"
        and hok: "\<not> real (cy + (fs + 2) - y) > H"
        and run: "fit_loop ins fs W H y [w] (cy + (fs + 2)) ws = Some r"
        using Cons.prems(1) False by (auto split: if_splits)
      have inv1: "y \<le> cy + (fs + 2)" using Cons.prems(3) by simp
      have inv2: "cy + (fs + 2) = y \<or> real (cy + (fs + 2) - y) \<le> H" using hok by simp
      have step: "cy + (fs + 2) - y = cy - y + (fs + 2)" using Cons.prems(3) by simp
      have d': "cy' - y' \<le> cy - y" using Cons.prems(6) by auto
      show ?thesis
      proof (cases "real (length (join_sp (line' @ [w]))) * real fs' * 0.5 < W")
        case True
        have "cy' - y' + (fs' + 2) \<le> cy + (fs + 2) - y" using d' le step by simp
        then have "\<exists>r'. fit_loop ins fs' W H y' (line' @ [w]) cy' ws = Some r'"
          using Cons.IH[OF run, of "line' @ [w]" cy'] inv1 inv2 Cons.prems(4) by auto
        then show ?thesis using True l' by simp
      next
        case br': False
        have step': "cy' + (fs' + 2) - y' = cy' - y' + (fs' + 2)" using Cons.prems(4) by simp
        have dd: "cy' + (fs' + 2) - y' \<le> cy + (fs + 2) - y" using d' le step step' by simp
        then have "real (cy' + (fs' + 2) - y') \<le> real (cy + (fs + 2) - y)" by simp
        then have h': "\<not> real (cy' + (fs' + 2) - y') > H" using hok by linarith
        have "\<exists>r'. fit_loop ins fs' W H y' [w] (cy' + (fs' + 2)) ws = Some r'"
          using Cons.IH[OF run, of "[w]" "cy' + (fs' + 2)"] inv1 inv2 Cons.prems(4) dd by auto
        then show ?thesis using br' l' ok h' by simp
      qed
    qed
  qed
qed

text \<open>
  C9.  For a fixed bbox and a fixed list of words, a font size that fits keeps fitting
  at every size below it: the width estimate admits at least the same words on each
  line, so the smaller size never breaks later than the larger one, and its lines are
  closer together.  Fitting is the geometric test of the loop; the insertions on the
  test page at the smaller size are taken to return.
\<close>

theorem fitting_monotone:
  assumes "S' \<le> S" and "\<forall>y l. ins y l S'" and "size_fits ins b ws S"
  shows "size_fits ins b ws S'"
proof -
  from assms(3) obtain r where
    r: "fit_loop ins S (max_width b) (height_limit b) (50 + S) [] (50 + S) ws = Some r"
    by (auto simp: size_fits_def split: option.splits)
  have "\<exists>r'. fit_loop ins S' (max_width b) (height_limit b) (50 + S') [] (50 + S') ws = Some r'"
    by (rule fit_loop_mono[OF assms(1) _ r]) (use assms(2) in auto)
  then show ?thesis using assms(2) by (auto simp: size_fits_def split: option.splits prod.splits)
qed

theorem fitting_monotone_witness:
  "(6::nat) \<le> 11 \<and> (\<forall>y l. (\<lambda>_ _ _. True) (y::nat) (l::ustring) (6::nat)) \<and>
   size_fits (\<lambda>_ _ _. True) (72, 100, 272, 160) (split (ascii ''the quick brown fox jumps over the dog'')) 11 \<and>
   size_fits (\<lambda>_ _ _. True) (72, 100, 272, 160) (split (ascii ''the quick brown fox jumps over the dog'')) 6"
proof -
  have a: "(6::nat) \<le> 11" by simp
  have b: "\<forall>y l. (\<lambda>_ _ _. True) (y::nat) (l::ustring) (6::nat)" by simp
  have c: "size_fits (\<lambda>_ _ _. True) (72, 100, 272, 160)
      (split (ascii ''the quick brown fox jumps over the dog'')) 11"
    by (simp add: size_fits_def split_def ascii_def is_space_def max_width_def height_limit_def
        bx0_def bx1_def by0_def by1_def)
  from fitting_monotone[OF a b c] a b c show ?thesis by blast
qed

section \<open>Properties of translate\_text\<close>

lemma attempts_step_fail:
  "attempt_fails (net calls) \<Longrightarrow> attempt < 2 \<Longrightarrow>
   translate_attempts net tx f k c calls attempt =
   translate_attempts net tx f k c (calls + 1) (attempt + 1)"
  by (subst translate_attempts.simps)
     (auto simp: attempt_fails_def max_retries_def isl_def split: reply.splits option.splits sum.splits)

lemma attempts_last_fail:
  "attempt_fails (net calls) \<Longrightarrow> attempt = 2 \<Longrightarrow>
   translate_attempts net tx f k c calls attempt = (tx, c, calls + 1)"
  by (subst translate_attempts.simps)
     (auto simp: attempt_fails_def max_retries_def isl_def split: reply.splits option.splits sum.splits)

lemma attempts_lacks:
  "attempt_lacks_choices (net calls) \<Longrightarrow> attempt < 3 \<Longrightarrow>
   translate_attempts net tx f k c calls attempt = (tx, c, calls + 1)"
  by (subst translate_attempts.simps)
     (auto simp: attempt_lacks_choices_def max_retries_def split: reply.splits option.splits sum.splits)

lemma attempts_translates:
  "attempt_translates (net calls) t \<Longrightarrow> attempt < 3 \<Longrightarrow>
   translate_attempts net tx f k c calls attempt = (t, cache_put c f k t, calls + 1)"
  by (subst translate_attempts.simps)
     (auto simp: attempt_translates_def max_retries_def split: reply.splits option.splits sum.splits)

lemma attempts_prefix_fail:
  "\<forall>i<n. attempt_fails (net (calls + i)) \<Longrightarrow> attempt + n < 3 \<Longrightarrow>
   translate_attempts net tx f k c calls attempt =
   translate_attempts net tx f k c (calls + n) (attempt + n)"
proof (induction n arbitrary: calls attempt)
  case 0
  then show ?case by simp
next
  case (Suc n)
  have f0: "attempt_fails (net calls)" using Suc.prems(1) by force
  have rest: "\<forall>i<n. attempt_fails (net (calls + 1 + i))"
  proof (intro allI impI)
    fix i assume "i < n"
    then have "attempt_fails (net (calls + Suc i))" using Suc.prems(1) by blast
    then show "attempt_fails (net (calls + 1 + i))" by simp
  qed
  have "translate_attempts net tx f k c calls attempt =
        translate_attempts net tx f k c (calls + 1) (attempt + 1)"
    using f0 Suc.prems(2) by (intro attempts_step_fail) auto
  also have "\<dots> = translate_attempts net tx f k c (calls + 1 + n) (attempt + 1 + n)"
    using Suc.IH[OF rest] Suc.prems(2) by simp
  finally show ?case by simp
qed

lemma attempts_all_fail:
  assumes "\<forall>i<3. attempt_fails (net (calls + i))"
  shows "translate_attempts net tx f k c calls 0 = (tx, c, calls + 3)"
proof -
  have p: "\<forall>i<2. attempt_fails (net (calls + i))" using assms by auto
  have l: "attempt_fails (net (calls + 2))" using assms[rule_format, of 2] by simp
  have "translate_attempts net tx f k c calls 0 = translate_attempts net tx f k c (calls + 2) (0 + 2)"
    by (rule attempts_prefix_fail[OF p]) simp
  also have "\<dots> = (tx, c, calls + 2 + 1)"
    by (rule attempts_last_fail) (use l in simp_all)
  finally show ?thesis by simp
qed

lemma attempts_fail_then_lacks:
  assumes "k < 3" "\<forall>i<k. attempt_fails (net (calls + i))" "attempt_lacks_choices (net (calls + k))"
  shows "translate_attempts net tx f m c calls 0 = (tx, c, calls + k + 1)"
proof -
  have "translate_attempts net tx f m c calls 0 = translate_attempts net tx f m c (calls + k) (0 + k)"
    by (rule attempts_prefix_fail[OF assms(2)]) (use assms(1) in simp)
  also have "\<dots> = (tx, c, calls + k + 1)"
    by (rule attempts_lacks) (use assms(1,3) in simp_all)
  finally show ?thesis .
qed

lemma attempts_fail_then_translates:
  assumes "k < 3" "\<forall>i<k. attempt_fails (net (calls + i))" "attempt_translates (net (calls + k)) t"
  shows "translate_attempts net tx f m c calls 0 = (t, cache_put c f m t, calls + k + 1)"
proof -
  have "translate_attempts net tx f m c calls 0 = translate_attempts net tx f m c (calls + k) (0 + k)"
    by (rule attempts_prefix_fail[OF assms(2)]) (use assms(1) in simp)
  also have "\<dots> = (t, cache_put c f m t, calls + k + 1)"
    by (rule attempts_translates) (use assms(1,3) in simp_all)
  finally show ?thesis .
qed

lemma cache_lookup_put: "cache_lookup (cache_put c f k v) f k = Some v"
  by (simp add: cache_lookup_def cache_put_def)

lemma translate_text_hit:
  "\<not> ignore_cache \<Longrightarrow> cache_lookup c f (h tx) = Some v \<Longrightarrow>
   translate_text h cfg net tx f c ignore_cache calls = (v, c, calls)"
  by (simp add: translate_text_def)

lemma translate_text_miss:
  "ignore_cache \<or> cache_lookup c f (h tx) = None \<Longrightarrow> \<not> config_incomplete cfg \<Longrightarrow>
   translate_text h cfg net tx f c ignore_cache calls =
   translate_attempts net tx f (h tx) c calls 0"
  by (cases ignore_cache) (simp_all add: translate_text_def Let_def)

lemma translate_text_no_config:
  "ignore_cache \<or> cache_lookup c f (h tx) = None \<Longrightarrow> config_incomplete cfg \<Longrightarrow>
   translate_text h cfg net tx f c ignore_cache calls = (tx, c, calls)"
  by (cases ignore_cache) (simp_all add: translate_text_def Let_def)

text \<open>
  C3 (amended).  A call that reaches the network returns the original text and leaves
  the cache as it was when all three attempts fail, or when some attempts fail and the
  next answer is a 200 without \<open>response\<close> or \<open>choices\<close>.  A 200 answer whose body
  cannot be read counts among the failed attempts: it is retried.  Nothing is raised:
  the function returns on every path.
\<close>

theorem translate_text_passthrough:
  assumes miss: "ignore_cache \<or> cache_lookup c f (h tx) = None"
    and bad: "(\<forall>i<3. attempt_fails (net (calls + i))) \<or>
       (\<exists>k<3. (\<forall>i<k. attempt_fails (net (calls + i))) \<and> attempt_lacks_choices (net (calls + k)))"
  shows "fst (translate_text h cfg net tx f c ignore_cache calls) = tx \<and>
         fst (snd (translate_text h cfg net tx f c ignore_cache calls)) = c"
proof (cases "config_incomplete cfg")
  case True
  then show ?thesis
    using translate_text_no_config[where h = h and tx = tx, OF miss True] by simp
next
  case False
  note eq = translate_text_miss[where h = h and tx = tx, OF miss False]
  from bad show ?thesis
  proof
    assume "\<forall>i<3. attempt_fails (net (calls + i))"
    from attempts_all_fail[OF this] eq show ?thesis by simp
  next
    assume "\<exists>k<3. (\<forall>i<k. attempt_fails (net (calls + i))) \<and> attempt_lacks_choices (net (calls + k))"
    then obtain k where "k < 3" "\<forall>i<k. attempt_fails (net (calls + i))"
      "attempt_lacks_choices (net (calls + k))" by blast
    from attempts_fail_then_lacks[OF this] eq show ?thesis by simp
  qed
qed


lemma read_sample_body: "read_translation sample_body = Inr (Some sample_translation)"
  by (simp add: read_translation_def sample_body_def sample_translation_def bind_err_def
      ascii_def strip_def is_space_def)

lemma sample_config_complete: "\<not> config_incomplete sample_config"
  by (simp add: config_incomplete_def sample_config_def ascii_def)

lemma net_up_translates: "attempt_translates (net_up n) sample_translation"
  by (simp add: attempt_translates_def net_up_def read_sample_body)

lemma net_down_fails: "attempt_fails (net_down n)"
  by (simp add: attempt_fails_def net_down_def)

lemma empty_cache_miss: "cache_lookup Map.empty f k = None"
  by (simp add: cache_lookup_def)

theorem translate_text_passthrough_witness:
  "fst (translate_text echo_digest sample_config net_down (ascii ''cat'') (ascii ''d41d'')
          Map.empty False 0) = ascii ''cat'' \<and>
   fst (snd (translate_text echo_digest sample_config net_down (ascii ''cat'') (ascii ''d41d'')
          Map.empty False 0)) = Map.empty"
proof -
  have m: "False \<or> cache_lookup Map.empty (ascii ''d41d'') (echo_digest (ascii ''cat'')) = None"
    by (simp add: empty_cache_miss)
  have b: "(\<forall>i<3. attempt_fails (net_down (0 + i))) \<or>
       (\<exists>k<3. (\<forall>i<k. attempt_fails (net_down (0 + i))) \<and> attempt_lacks_choices (net_down (0 + k)))"
    by (simp add: net_down_fails)
  show ?thesis
    by (rule translate_text_passthrough[where h = echo_digest, OF m b])
qed

text \<open>
  C3, as stated, fails: the first answer is a 200 with an empty body, the second carries
  the translation, and the call returns the translation and writes it to the cache.
\<close>

theorem translate_text_empty_body_retried:
  "attempt_fails (net_empty_then_up 0) \<and>
   fst (translate_text echo_digest sample_config net_empty_then_up (ascii ''cat'') (ascii ''d41d'')
          Map.empty False 0) \<noteq> ascii ''cat'' \<and>
   fst (snd (translate_text echo_digest sample_config net_empty_then_up (ascii ''cat'')
          (ascii ''d41d'') Map.empty False 0)) \<noteq> Map.empty"
proof -
  have a: "\<forall>i<1. attempt_fails (net_empty_then_up (0 + i))"
    by (simp add: attempt_fails_def net_empty_then_up_def)
  have b: "attempt_translates (net_empty_then_up (0 + 1)) sample_translation"
    by (simp add: attempt_translates_def net_empty_then_up_def read_sample_body)
  have m: "False \<or> cache_lookup Map.empty (ascii ''d41d'') (echo_digest (ascii ''cat'')) = None"
    by (simp add: empty_cache_miss)
  have run: "translate_text echo_digest sample_config net_empty_then_up (ascii ''cat'')
      (ascii ''d41d'') Map.empty False 0
    = (sample_translation,
       cache_put Map.empty (ascii ''d41d'') (echo_digest (ascii ''cat'')) sample_translation, 2)"
    unfolding translate_text_miss[where h = echo_digest, OF m sample_config_complete]
    using attempts_fail_then_translates[OF _ a b] by simp
  have ne: "sample_translation \<noteq> ascii ''cat''"
    by (simp add: sample_translation_def ascii_def)
  have nc: "cache_put Map.empty (ascii ''d41d'') (echo_digest (ascii ''cat'')) sample_translation
      \<noteq> Map.empty"
    by (simp add: cache_put_def)
  have f0: "attempt_fails (net_empty_then_up 0)"
    by (simp add: attempt_fails_def net_empty_then_up_def)
  show ?thesis using run ne nc f0 by simp
qed

section \<open>Properties of the cache\<close>

text \<open>
  C4 (amended).  A hit with the cache enabled returns the cached value, issues no
  request and leaves the cache as it was.  A miss that gets its translation at attempt
  \<open>k\<close>, after \<open>k\<close> failed attempts, has issued \<open>k + 1\<close> requests and has written the
  translation under the digests of file and text before returning; translating the
  same text again with the cache enabled then issues no further request.  The two
  translations together issue exactly one request when the first attempt succeeds.
\<close>

theorem translate_text_cache:
  "(\<not> ignore_cache \<and> cache_lookup c f (h tx) = Some v \<longrightarrow>
      translate_text h cfg net tx f c ignore_cache calls = (v, c, calls)) \<and>
   ((ignore_cache \<or> cache_lookup c f (h tx) = None) \<and> \<not> config_incomplete cfg \<and> k < 3 \<and>
    (\<forall>i<k. attempt_fails (net (calls + i))) \<and> attempt_translates (net (calls + k)) t \<longrightarrow>
      translate_text h cfg net tx f c ignore_cache calls =
        (t, cache_put c f (h tx) t, calls + k + 1) \<and>
      cache_lookup (cache_put c f (h tx) t) f (h tx) = Some t \<and>
      translate_text h cfg net tx f (cache_put c f (h tx) t) False (calls + k + 1) =
        (t, cache_put c f (h tx) t, calls + k + 1))"
proof (intro conjI impI)
  assume "\<not> ignore_cache \<and> cache_lookup c f (h tx) = Some v"
  then show "translate_text h cfg net tx f c ignore_cache calls = (v, c, calls)"
    by (simp add: translate_text_hit)
next
  assume a: "(ignore_cache \<or> cache_lookup c f (h tx) = None) \<and> \<not> config_incomplete cfg \<and> k < 3 \<and>
    (\<forall>i<k. attempt_fails (net (calls + i))) \<and> attempt_translates (net (calls + k)) t"
  then have m: "ignore_cache \<or> cache_lookup c f (h tx) = None" and nc: "\<not> config_incomplete cfg"
    and k: "k < 3" and fl: "\<forall>i<k. attempt_fails (net (calls + i))"
    and tr: "attempt_translates (net (calls + k)) t" by simp_all
  show "translate_text h cfg net tx f c ignore_cache calls = (t, cache_put c f (h tx) t, calls + k + 1)"
    unfolding translate_text_miss[where h = h, OF m nc]
    by (rule attempts_fail_then_translates[OF k fl tr])
next
  show "cache_lookup (cache_put c f (h tx) t) f (h tx) = Some t"
    by (rule cache_lookup_put)
next
  show "translate_text h cfg net tx f (cache_put c f (h tx) t) False (calls + k + 1) =
        (t, cache_put c f (h tx) t, calls + k + 1)"
    by (rule translate_text_hit) (simp_all add: cache_lookup_put)
qed

theorem translate_text_cache_witness:
  "translate_text echo_digest sample_config net_down (ascii ''cat'') (ascii ''d41d'')
      (cache_put Map.empty (ascii ''d41d'') (echo_digest (ascii ''cat'')) sample_translation) False 0
    = (sample_translation,
       cache_put Map.empty (ascii ''d41d'') (echo_digest (ascii ''cat'')) sample_translation, 0) \<and>
   translate_text echo_digest sample_config net_up (ascii ''cat'') (ascii ''d41d'') Map.empty False 0
    = (sample_translation,
       cache_put Map.empty (ascii ''d41d'') (echo_digest (ascii ''cat'')) sample_translation, 1) \<and>
   translate_text echo_digest sample_config net_up (ascii ''cat'') (ascii ''d41d'')
      (cache_put Map.empty (ascii ''d41d'') (echo_digest (ascii ''cat'')) sample_translation) False 1
    = (sample_translation,
       cache_put Map.empty (ascii ''d41d'') (echo_digest (ascii ''cat'')) sample_translation, 1)"
proof -
  let ?c = "cache_put Map.empty (ascii ''d41d'') (echo_digest (ascii ''cat'')) sample_translation"
  have hit: "\<not> False \<and> cache_lookup ?c (ascii ''d41d'') (echo_digest (ascii ''cat'')) = Some sample_translation"
    by (simp add: cache_lookup_put)
  have miss: "(False \<or> cache_lookup Map.empty (ascii ''d41d'') (echo_digest (ascii ''cat'')) = None) \<and>
      \<not> config_incomplete sample_config \<and> (0::nat) < 3 \<and>
      (\<forall>i<0. attempt_fails (net_up (0 + i))) \<and> attempt_translates (net_up (0 + 0)) sample_translation"
    by (simp add: empty_cache_miss sample_config_complete net_up_translates)
  from translate_text_cache[of False ?c "ascii ''d41d''" echo_digest "ascii ''cat''" sample_translation
      sample_config net_down 0 0 sample_translation] hit
  have one: "translate_text echo_digest sample_config net_down (ascii ''cat'') (ascii ''d41d'') ?c False 0
      = (sample_translation, ?c, 0)" by blast
  from translate_text_cache[of False Map.empty "ascii ''d41d''" echo_digest "ascii ''cat''" sample_translation
      sample_config net_up 0 0 sample_translation] miss
  have two: "translate_text echo_digest sample_config net_up (ascii ''cat'') (ascii ''d41d'') Map.empty False 0
      = (sample_translation, ?c, 0 + 0 + 1) \<and>
    translate_text echo_digest sample_config net_up (ascii ''cat'') (ascii ''d41d'') ?c False (0 + 0 + 1)
      = (sample_translation, ?c, 0 + 0 + 1)" by blast
  from one two show ?thesis by simp
qed

text \<open>
  C4, as stated, fails: with a 503 before the translation, translating the same text
  twice with the cache enabled issues two requests.
\<close>

theorem two_translations_two_requests:
  "snd (snd (translate_text echo_digest sample_config net_503_then_up (ascii ''cat'') (ascii ''d41d'')
     (fst (snd (translate_text echo_digest sample_config net_503_then_up (ascii ''cat'')
        (ascii ''d41d'') Map.empty False 0)))
     False
     (snd (snd (translate_text echo_digest sample_config net_503_then_up (ascii ''cat'')
        (ascii ''d41d'') Map.empty False 0))))) = 2"
proof -
  let ?c = "cache_put Map.empty (ascii ''d41d'') (echo_digest (ascii ''cat'')) sample_translation"
  have a: "\<forall>i<1. attempt_fails (net_503_then_up (0 + i))"
    by (simp add: attempt_fails_def net_503_then_up_def)
  have b: "attempt_translates (net_503_then_up (0 + 1)) sample_translation"
    by (simp add: attempt_translates_def net_503_then_up_def read_sample_body)
  have m: "False \<or> cache_lookup Map.empty (ascii ''d41d'') (echo_digest (ascii ''cat'')) = None"
    by (simp add: empty_cache_miss)
  have first: "translate_text echo_digest sample_config net_503_then_up (ascii ''cat'')
      (ascii ''d41d'') Map.empty False 0 = (sample_translation, ?c, 2)"
    unfolding translate_text_miss[where h = echo_digest, OF m sample_config_complete]
    using attempts_fail_then_translates[OF _ a b] by simp
  have second: "translate_text echo_digest sample_config net_503_then_up (ascii ''cat'')
      (ascii ''d41d'') ?c False 2 = (sample_translation, ?c, 2)"
    by (rule translate_text_hit) (simp_all add: cache_lookup_put)
  show ?thesis by (simp add: first second)
qed

section \<open>Properties of the translate command\<close>

lemma translate_paragraph_lookup:
  "cache_lookup (fst (translate_paragraph h cfg net f ig (c, calls) tx)) f (h tx) =
   Some (fst (translate_text h cfg net tx f c ig calls))"
  by (simp add: translate_paragraph_def cache_lookup_put split: prod.splits)

text \<open>
  C10.  After a paragraph is processed the cache holds, under the digests of file and
  text, whatever \<open>translate_text\<close> returned, and a later translation of that text with
  the cache enabled returns this value without any request, whatever the network
  would answer.  When the translation failed, the value is the original text.
\<close>

theorem translate_paragraph_caches_result:
  "cache_lookup (fst (translate_paragraph h cfg net f ig (c, calls) tx)) f (h tx) =
     Some (fst (translate_text h cfg net tx f c ig calls)) \<and>
   translate_text h cfg' net' tx f (fst (translate_paragraph h cfg net f ig (c, calls) tx)) False calls' =
     (fst (translate_text h cfg net tx f c ig calls),
      fst (translate_paragraph h cfg net f ig (c, calls) tx), calls') \<and>
   ((ig \<or> cache_lookup c f (h tx) = None) \<and>
    ((\<forall>i<3. attempt_fails (net (calls + i))) \<or>
     (\<exists>k<3. (\<forall>i<k. attempt_fails (net (calls + i))) \<and> attempt_lacks_choices (net (calls + k)))) \<longrightarrow>
      cache_lookup (fst (translate_paragraph h cfg net f ig (c, calls) tx)) f (h tx) = Some tx \<and>
      fst (translate_text h cfg' net' tx f (fst (translate_paragraph h cfg net f ig (c, calls) tx))
             False calls') = tx)"
proof (intro conjI impI)
  show l: "cache_lookup (fst (translate_paragraph h cfg net f ig (c, calls) tx)) f (h tx) =
     Some (fst (translate_text h cfg net tx f c ig calls))"
    by (rule translate_paragraph_lookup)
  show r: "translate_text h cfg' net' tx f (fst (translate_paragraph h cfg net f ig (c, calls) tx)) False calls' =
     (fst (translate_text h cfg net tx f c ig calls),
      fst (translate_paragraph h cfg net f ig (c, calls) tx), calls')"
    by (rule translate_text_hit) (simp_all add: l)
  assume a: "(ig \<or> cache_lookup c f (h tx) = None) \<and>
    ((\<forall>i<3. attempt_fails (net (calls + i))) \<or>
     (\<exists>k<3. (\<forall>i<k. attempt_fails (net (calls + i))) \<and> attempt_lacks_choices (net (calls + k))))"
  then have m: "ig \<or> cache_lookup c f (h tx) = None"
    and b: "(\<forall>i<3. attempt_fails (net (calls + i))) \<or>
     (\<exists>k<3. (\<forall>i<k. attempt_fails (net (calls + i))) \<and> attempt_lacks_choices (net (calls + k)))"
    by simp_all
  have p: "fst (translate_text h cfg net tx f c ig calls) = tx"
  proof (cases "config_incomplete cfg")
    case True
    then show ?thesis using translate_text_no_config[where h = h, OF m True] by simp
  next
    case False
    note eq = translate_text_miss[where h = h, OF m False]
    from b show ?thesis
    proof
      assume "\<forall>i<3. attempt_fails (net (calls + i))"
      from attempts_all_fail[OF this] eq show ?thesis by simp
    next
      assume "\<exists>k<3. (\<forall>i<k. attempt_fails (net (calls + i))) \<and> attempt_lacks_choices (net (calls + k))"
      then obtain k where "k < 3" "\<forall>i<k. attempt_fails (net (calls + i))"
        "attempt_lacks_choices (net (calls + k))" by blast
      from attempts_fail_then_lacks[OF this] eq show ?thesis by simp
    qed
  qed
  show "cache_lookup (fst (translate_paragraph h cfg net f ig (c, calls) tx)) f (h tx) = Some tx"
    using l p by simp
  show "fst (translate_text h cfg' net' tx f (fst (translate_paragraph h cfg net f ig (c, calls) tx))
             False calls') = tx"
    using r p by simp
qed

theorem translate_paragraph_caches_result_witness:
  "cache_lookup (fst (translate_paragraph echo_digest sample_config net_down (ascii ''d41d'') False
       (Map.empty, 0) (ascii ''cat''))) (ascii ''d41d'') (echo_digest (ascii ''cat'')) = Some (ascii ''cat'') \<and>
   fst (translate_text echo_digest sample_config net_up (ascii ''cat'') (ascii ''d41d'')
       (fst (translate_paragraph echo_digest sample_config net_down (ascii ''d41d'') False
          (Map.empty, 0) (ascii ''cat''))) False 0) = ascii ''cat''"
proof -
  have m: "(False \<or> cache_lookup Map.empty (ascii ''d41d'') (echo_digest (ascii ''cat'')) = None) \<and>
     ((\<forall>i<3. attempt_fails (net_down (0 + i))) \<or>
      (\<exists>k<3. (\<forall>i<k. attempt_fails (net_down (0 + i))) \<and> attempt_lacks_choices (net_down (0 + k))))"
    by (simp add: empty_cache_miss net_down_fails)
  from translate_paragraph_caches_result[of echo_digest sample_config net_down "ascii ''d41d''" False
      Map.empty 0 "ascii ''cat''" sample_config net_up 0] m
  show ?thesis by blast
qed

section \<open>Properties of the renderer\<close>

lemma commit_loop_ops:
  "op \<in> set (fst (commit_loop dins fs x W line cy ws)) \<Longrightarrow> \<exists>y l. op = InsertText x y l fs"
  by (induction dins fs x W line cy ws rule: commit_loop.induct)
     (auto split: if_splits prod.splits)

lemma best_font_size_none:
  "(\<forall>s \<in> set candidate_sizes. \<not> size_fits ins b ws s) \<Longrightarrow> best_font_size ins b ws = None"
  by (simp add: best_font_size_def find_None_iff)

lemma find_first_descending:
  "sorted_wrt (\<lambda>a b. a > b) xs \<Longrightarrow> x \<in> set xs \<Longrightarrow> P x \<Longrightarrow>
   (\<forall>s \<in> set xs. x < s \<longrightarrow> \<not> P s) \<Longrightarrow> List.find P xs = Some (x::nat)"
proof (induction xs)
  case Nil
  then show ?case by simp
next
  case (Cons a xs)
  show ?case
  proof (cases "a = x")
    case True
    then show ?thesis using Cons.prems(3) by simp
  next
    case False
    then have mem: "x \<in> set xs" using Cons.prems(2) by simp
    then have "x < a" using Cons.prems(1) by auto
    then have na: "\<not> P a" using Cons.prems(4) by simp
    have "List.find P xs = Some x"
      using Cons.IH Cons.prems(1,3,4) mem by simp
    then show ?thesis using na by simp
  qed
qed

lemma candidate_sizes_descending: "sorted_wrt (\<lambda>a b. a > b) candidate_sizes"
  by (simp add: candidate_sizes_def)

lemma best_font_size_largest:
  "fs \<in> set candidate_sizes \<Longrightarrow> size_fits ins b ws fs \<Longrightarrow>
   (\<forall>s \<in> set candidate_sizes. fs < s \<longrightarrow> \<not> size_fits ins b ws s) \<Longrightarrow>
   best_font_size ins b ws = Some fs"
  unfolding best_font_size_def
  by (rule find_first_descending[OF candidate_sizes_descending])

lemma render_paragraph_unfold:
  "is_formula tx = Inr False \<Longrightarrow> lookup_translation h c f i tx = (pre, tr) \<Longrightarrow>
   render_paragraph h ins dins c f i tx b =
     (case best_font_size ins b (split tr) of
        None \<Rightarrow> (pre @ [Print (CouldNotFitText (i + 1))], Done)
      | Some fs \<Rightarrow>
          (pre @ [Print (SuccessWithFontSize fs (i + 1)), DrawRect b] @
             fst (commit_loop dins fs (bx0 b + 2) (max_width b) [] (by0 b + real fs) (split tr)),
           snd (commit_loop dins fs (bx0 b + 2) (max_width b) [] (by0 b + real fs) (split tr))))"
  by (simp add: render_paragraph_def split: option.splits prod.splits)

text \<open>
  C1 (amended).  For a fragment that is no formula the sizes are tried in the order
  11, 10, 9, 8, 7, 6 and the largest one that fits is committed: the white rectangle is
  drawn and every line is inserted at that size.  When no size fits, nothing is drawn
  for the fragment, neither rectangle nor text, and the warning is printed.
\<close>

theorem render_paragraph_fitting:
  assumes nf: "is_formula tx = Inr False"
    and tr: "lookup_translation h c f i tx = (pre, tr)"
  shows "((\<forall>s \<in> set candidate_sizes. \<not> size_fits ins b (split tr) s) \<longrightarrow>
            render_paragraph h ins dins c f i tx b = (pre @ [Print (CouldNotFitText (i + 1))], Done)) \<and>
         (fs \<in> set candidate_sizes \<and> size_fits ins b (split tr) fs \<and>
          (\<forall>s \<in> set candidate_sizes. fs < s \<longrightarrow> \<not> size_fits ins b (split tr) s) \<longrightarrow>
            render_paragraph h ins dins c f i tx b =
              (pre @ [Print (SuccessWithFontSize fs (i + 1)), DrawRect b] @
                 fst (commit_loop dins fs (bx0 b + 2) (max_width b) [] (by0 b + real fs) (split tr)),
               snd (commit_loop dins fs (bx0 b + 2) (max_width b) [] (by0 b + real fs) (split tr))) \<and>
            (\<forall>op \<in> set (fst (commit_loop dins fs (bx0 b + 2) (max_width b) [] (by0 b + real fs) (split tr))).
               \<exists>y l. op = InsertText (bx0 b + 2) y l fs))"
proof (intro conjI impI)
  assume "\<forall>s \<in> set candidate_sizes. \<not> size_fits ins b (split tr) s"
  then have "best_font_size ins b (split tr) = None" by (rule best_font_size_none)
  then show "render_paragraph h ins dins c f i tx b = (pre @ [Print (CouldNotFitText (i + 1))], Done)"
    by (simp add: render_paragraph_unfold[OF nf tr])
next
  assume a: "fs \<in> set candidate_sizes \<and> size_fits ins b (split tr) fs \<and>
          (\<forall>s \<in> set candidate_sizes. fs < s \<longrightarrow> \<not> size_fits ins b (split tr) s)"
  then have "best_font_size ins b (split tr) = Some fs"
    by (intro best_font_size_largest) simp_all
  then show "render_paragraph h ins dins c f i tx b =
              (pre @ [Print (SuccessWithFontSize fs (i + 1)), DrawRect b] @
                 fst (commit_loop dins fs (bx0 b + 2) (max_width b) [] (by0 b + real fs) (split tr)),
               snd (commit_loop dins fs (bx0 b + 2) (max_width b) [] (by0 b + real fs) (split tr)))"
    by (simp add: render_paragraph_unfold[OF nf tr])
next
  show "\<forall>op \<in> set (fst (commit_loop dins fs (bx0 b + 2) (max_width b) [] (by0 b + real fs) (split tr))).
               \<exists>y l. op = InsertText (bx0 b + 2) y l fs"
    using commit_loop_ops by blast
qed

lemma cat_words:
  "split (ascii ''bolshoy ryzhiy kot'') =
     [ascii ''bolshoy'', ascii ''ryzhiy'', ascii ''kot'']"
  by (simp add: split_def ascii_def is_space_def)

lemma small_box_dims:
  "max_width small_box = 36" "height_limit small_box = 5" "bx0 small_box = 72" "by0 small_box = 100"
  by (simp_all add: small_box_def max_width_def height_limit_def bx0_def bx1_def by0_def by1_def)

lemma wide_box_dims:
  "max_width wide_box = 96" "height_limit wide_box = 55" "bx0 wide_box = 72" "by0 wide_box = 100"
  by (simp_all add: wide_box_def max_width_def height_limit_def bx0_def bx1_def by0_def by1_def)

lemma cat_not_formula: "is_formula cat_text = Inr False"
  by (simp add: is_formula_def cat_text_def formula_indicators_def ascii_def split_def is_space_def)

lemma cat_translation:
  "lookup_translation echo_digest cat_cache (ascii ''d41d'') 0 cat_text =
     ([], ascii ''bolshoy ryzhiy kot'')"
  by (simp add: lookup_translation_def cat_cache_def cache_lookup_def cache_put_def)

lemma small_box_no_fit:
  "\<forall>s \<in> set candidate_sizes.
     \<not> size_fits test_insert_ok small_box (split (ascii ''bolshoy ryzhiy kot'')) s"
  unfolding cat_words
  by (simp add: candidate_sizes_def size_fits_def small_box_dims ascii_def test_insert_ok_def)

lemma wide_box_raises_no_fit:
  "\<forall>s \<in> set candidate_sizes.
     \<not> size_fits test_insert_raises wide_box (split (ascii ''bolshoy ryzhiy kot'')) s"
  unfolding cat_words
  by (simp add: candidate_sizes_def size_fits_def wide_box_dims ascii_def test_insert_raises_def)

lemma wide_box_fit_11:
  "size_fits test_insert_ok wide_box (split (ascii ''bolshoy ryzhiy kot'')) 11"
  unfolding cat_words
  by (simp add: size_fits_def wide_box_dims ascii_def test_insert_ok_def)

lemma wide_box_commit_ok:
  "commit_loop page_insert_ok 11 (bx0 wide_box + 2) (max_width wide_box) []
      (by0 wide_box + 11) (split (ascii ''bolshoy ryzhiy kot''))
     = ([InsertText 74 111 (ascii ''bolshoy ryzhiy'') 11,
         InsertText 74 124 (ascii ''kot'') 11], Done)"
  unfolding cat_words
  by (simp add: wide_box_dims ascii_def page_insert_ok_def)

lemma wide_box_commit_raises:
  "commit_loop page_insert_raises 11 (bx0 wide_box + 2) (max_width wide_box) []
      (by0 wide_box + 11) (split (ascii ''bolshoy ryzhiy kot''))
     = ([], Raised RuntimeError)"
  unfolding cat_words
  by (simp add: wide_box_dims ascii_def page_insert_raises_def)

theorem render_paragraph_fitting_witness:
  "render_paragraph echo_digest test_insert_ok page_insert_ok cat_cache (ascii ''d41d'') 0 cat_text wide_box
    = ([Print (SuccessWithFontSize 11 1), DrawRect wide_box,
        InsertText 74 111 (ascii ''bolshoy ryzhiy'') 11,
        InsertText 74 124 (ascii ''kot'') 11], Done) \<and>
   render_paragraph echo_digest test_insert_ok page_insert_ok cat_cache (ascii ''d41d'') 0 cat_text small_box
    = ([Print (CouldNotFitText 1)], Done)"
proof -
  let ?ws = "split (ascii ''bolshoy ryzhiy kot'')"
  have y: "11 \<in> set candidate_sizes \<and> size_fits test_insert_ok wide_box ?ws 11 \<and>
          (\<forall>s \<in> set candidate_sizes. 11 < s \<longrightarrow> \<not> size_fits test_insert_ok wide_box ?ws s)"
    by (simp add: wide_box_fit_11 candidate_sizes_def)
  have one: "render_paragraph echo_digest test_insert_ok page_insert_ok cat_cache (ascii ''d41d'') 0
      cat_text small_box = ([] @ [Print (CouldNotFitText (0 + 1))], Done)"
    by (rule render_paragraph_fitting[OF cat_not_formula cat_translation,
          where ins = test_insert_ok and b = small_box and dins = page_insert_ok and fs = 11,
          THEN conjunct1, THEN mp, OF small_box_no_fit])
  have two: "render_paragraph echo_digest test_insert_ok page_insert_ok cat_cache (ascii ''d41d'') 0
      cat_text wide_box =
      ([] @ [Print (SuccessWithFontSize 11 (0 + 1)), DrawRect wide_box] @
         fst (commit_loop page_insert_ok 11 (bx0 wide_box + 2) (max_width wide_box) []
           (by0 wide_box + real 11) ?ws),
       snd (commit_loop page_insert_ok 11 (bx0 wide_box + 2) (max_width wide_box) []
           (by0 wide_box + real 11) ?ws))"
    by (rule render_paragraph_fitting[OF cat_not_formula cat_translation,
          where ins = test_insert_ok and b = wide_box and dins = page_insert_ok and fs = 11,
          THEN conjunct2, THEN mp, OF y, THEN conjunct1])
  show ?thesis using one two by (simp add: wide_box_commit_ok)
qed

text \<open>
  C1, as stated, fails: three words in a box ten points high fit at no size, and the
  paragraph gets the warning and no text at size 6.
\<close>

theorem no_fit_draws_nothing:
  "render_paragraph echo_digest test_insert_ok page_insert_ok cat_cache (ascii ''d41d'') 0 cat_text small_box
    = ([Print (CouldNotFitText 1)], Done)"
  by (simp add: render_paragraph_unfold[OF cat_not_formula cat_translation]
      best_font_size_none[OF small_box_no_fit])

text \<open>
  C2 fails on the code.  When every insertion on the test page raises, each size is
  judged not to fit and the paragraph ends with the warning; when the insertion on the
  destination page raises, the exception leaves the function.  In neither case is
  \<open>fallback_insert_text_as_image\<close> called: no image is embedded.
\<close>

theorem failed_insertion_no_fallback:
  "render_paragraph echo_digest test_insert_raises page_insert_ok cat_cache (ascii ''d41d'') 0 cat_text wide_box
    = ([Print (CouldNotFitText 1)], Done) \<and>
   snd (render_paragraph echo_digest test_insert_ok page_insert_raises cat_cache (ascii ''d41d'') 0 cat_text wide_box)
    = Raised RuntimeError"
proof -
  have b: "best_font_size test_insert_ok wide_box
      (split (ascii ''bolshoy ryzhiy kot'')) = Some 11"
    by (rule best_font_size_largest) (simp_all add: wide_box_fit_11 candidate_sizes_def)
  show ?thesis
    by (simp add: render_paragraph_unfold[OF cat_not_formula cat_translation]
      best_font_size_none[OF wide_box_raises_no_fit] b wide_box_commit_raises)
qed

section \<open>Properties of the paragraphs file\<close>

lemma digits_of_nonempty: "digits_of n \<noteq> []"
  by (subst digits_of.simps) simp

lemma digits_of_range: "c \<in> set (digits_of n) \<Longrightarrow> 48 \<le> c \<and> c \<le> 57"
proof (induction n arbitrary: c rule: digits_of.induct)
  case (1 n)
  show ?case
  proof (cases "n < 10")
    case True
    then have "digits_of n = [48 + n]" by (subst digits_of.simps) simp
    then show ?thesis using "1.prems" True by simp
  next
    case False
    then have eq: "digits_of n = digits_of (n div 10) @ [48 + n mod 10]"
      by (subst digits_of.simps) simp
    have "c \<in> set (digits_of (n div 10) @ [48 + n mod 10])" using "1.prems" eq by simp
    then have "c \<in> set (digits_of (n div 10)) \<or> c = 48 + n mod 10" by auto
    then show ?thesis
    proof
      assume "c \<in> set (digits_of (n div 10))"
      then show ?thesis using "1.IH"[OF False] by simp
    next
      assume c: "c = 48 + n mod 10"
      have "n mod 10 < 10" by simp
      then show ?thesis using c by linarith
    qed
  qed
qed

lemma parse_digits_all:
  "(\<forall>c \<in> set ds. 48 \<le> c \<and> c \<le> 57) \<Longrightarrow>
   parse_digits ds acc b =
     (if ds = [] then (if b then Some acc else None)
      else Some (foldl (\<lambda>a c. 10 * a + (c - 48)) acc ds))"
  by (induction ds arbitrary: acc b) auto

lemma digits_of_value: "foldl (\<lambda>a c. 10 * a + (c - 48)) 0 (digits_of n) = n"
proof (induction n rule: digits_of.induct)
  case (1 n)
  show ?case
  proof (cases "n < 10")
    case True
    then have "digits_of n = [48 + n]" by (subst digits_of.simps) simp
    then show ?thesis by simp
  next
    case False
    then have eq: "digits_of n = digits_of (n div 10) @ [48 + n mod 10]"
      by (subst digits_of.simps) simp
    show ?thesis using "1.IH"[OF False] by (simp add: eq)
  qed
qed

lemma parse_digits_of: "parse_digits (digits_of n) 0 False = Some n"
  using digits_of_range[of _ n]
  by (simp add: parse_digits_all digits_of_nonempty digits_of_value)

lemma digit_not_space: "48 \<le> c \<Longrightarrow> c \<le> 57 \<Longrightarrow> \<not> is_space c"
  by (simp add: is_space_def)

lemma strip_id: "s \<noteq> [] \<Longrightarrow> \<not> is_space (hd s) \<Longrightarrow> \<not> is_space (last s) \<Longrightarrow> strip s = s"
proof -
  assume a: "s \<noteq> []" "\<not> is_space (hd s)" "\<not> is_space (last s)"
  have 1: "dropWhile is_space s = s" using a(1,2) by (cases s) simp_all
  obtain x xs where r: "rev s = x # xs" using a(1) by (cases "rev s") auto
  have "hd (rev s) = last s" using a(1) by (simp add: hd_rev)
  then have x: "\<not> is_space x" using r a(3) by simp
  have 2: "dropWhile is_space (rev s) = rev s" unfolding r using x by simp
  show ?thesis by (simp add: strip_def 1 2)
qed

lemma digits_hd: "48 \<le> hd (digits_of n) \<and> hd (digits_of n) \<le> 57"
  using digits_of_range[of "hd (digits_of n)" n] digits_of_nonempty[of n] by simp

lemma digits_last: "48 \<le> last (digits_of n) \<and> last (digits_of n) \<le> 57"
  using digits_of_range[of "last (digits_of n)" n] digits_of_nonempty[of n] by simp

lemma strip_digits: "strip (digits_of n) = digits_of n"
  using digits_hd[of n] digits_last[of n]
  by (intro strip_id) (simp_all add: digits_of_nonempty digit_not_space)

lemma strip_minus_digits: "strip (45 # digits_of n) = 45 # digits_of n"
  using digits_last[of n]
  by (intro strip_id) (simp_all add: digits_of_nonempty digit_not_space is_space_def)

lemma py_int_str_roundtrip: "py_int_str (py_str_int i) = Inr i"
proof (cases "i < 0")
  case True
  then show ?thesis
    by (simp add: py_int_str_def py_str_int_def strip_minus_digits parse_digits_of)
next
  case False
  obtain c cs where d: "digits_of (nat i) = c # cs"
    using digits_of_nonempty[of "nat i"] by (cases "digits_of (nat i)") auto
  have "48 \<le> c" using digits_hd[of "nat i"] d by simp
  then have c: "c \<noteq> 45" "c \<noteq> 43" by simp_all
  have p: "parse_digits (c # cs) 0 False = Some (nat i)"
    using parse_digits_of[of "nat i"] d by simp
  have s: "strip (c # cs) = c # cs" using strip_digits[of "nat i"] d by simp
  show ?thesis using False c
    by (simp add: py_int_str_def py_str_int_def d s p del: parse_digits.simps)
qed

lemma py_str_int_inj: "py_str_int i = py_str_int j \<Longrightarrow> i = j"
proof -
  assume "py_str_int i = py_str_int j"
  then have "py_int_str (py_str_int i) = py_int_str (py_str_int j)" by simp
  then show ?thesis by (simp add: py_int_str_roundtrip)
qed

lemma dict_set_fresh: "k \<notin> fst ` set d \<Longrightarrow> dict_set d k v = d @ [(k, v)]"
  by (induction d) auto


lemma serialize_pages_append:
  "distinct (map fst m) \<Longrightarrow> (\<forall>p \<in> set m. py_str_int (fst p) \<notin> fst ` set d) \<Longrightarrow>
   serialize_pages d m = d @ map serialized_page m"
proof (induction m arbitrary: d)
  case Nil
  then show ?case by simp
next
  case (Cons a m)
  obtain k ps where a: "a = (k, ps)" by (cases a)
  have fresh: "py_str_int k \<notin> fst ` set d" using Cons.prems(2) a by simp
  let ?d = "d @ [(py_str_int k, JArr (map serialize_fragment ps))]"
  have dist: "distinct (map fst m)" using Cons.prems(1) by simp
  have nk: "\<forall>p \<in> set m. fst p \<noteq> k" using Cons.prems(1) a by auto
  have "\<forall>p \<in> set m. py_str_int (fst p) \<notin> fst ` set ?d"
  proof
    fix p assume p: "p \<in> set m"
    have "py_str_int (fst p) \<notin> fst ` set d" using Cons.prems(2) p by simp
    moreover have "py_str_int (fst p) \<noteq> py_str_int k" using nk p py_str_int_inj by blast
    ultimately show "py_str_int (fst p) \<notin> fst ` set ?d" by simp
  qed
  from Cons.IH[OF dist this] show ?case
    by (simp add: a dict_set_fresh[OF fresh] serialized_page_def)
qed

lemma read_fragment_serialized: "read_fragment (serialize_fragment p) = Inr (fragment_value p)"
  by (cases p) (simp add: read_fragment_def serialize_fragment_def fragment_value_def
      unpack_pair_def bind_err_def)

lemma read_fragments_serialized:
  "read_fragments (map serialize_fragment ps) = Inr (map fragment_value ps)"
  by (induction ps) (simp_all add: read_fragment_serialized bind_err_def)

lemma deserialize_pages_append:
  "distinct (map fst m) \<Longrightarrow> (\<forall>p \<in> set m. fst p \<notin> fst ` set d) \<Longrightarrow>
   deserialize_pages d (map serialized_page m) =
     Inr (d @ map (\<lambda>kv. (fst kv, map fragment_value (snd kv))) m)"
proof (induction m arbitrary: d)
  case Nil
  then show ?case by simp
next
  case (Cons a m)
  obtain k ps where a: "a = (k, ps)" by (cases a)
  have fresh: "k \<notin> fst ` set d" using Cons.prems(2) a by simp
  let ?d = "d @ [(k, map fragment_value ps)]"
  have dist: "distinct (map fst m)" using Cons.prems(1) by simp
  have "\<forall>p \<in> set m. fst p \<notin> fst ` set ?d" using Cons.prems a by auto
  from Cons.IH[OF dist this] show ?case
    by (simp add: a serialized_page_def bind_err_def read_fragments_serialized
        py_int_str_roundtrip dict_set_fresh[OF fresh])
qed

text \<open>
  C7.  Writing the paragraphs of a document and reading them back gives the same
  mapping: the same page indices in the same order, and for each page the same
  fragments in the same order, each with its text and the four coordinates of its
  bbox.  The file is taken to hold the JSON value written, numbers included.
\<close>

theorem paragraphs_roundtrip:
  assumes "distinct (map fst pbp)"
  shows "load_paragraphs (save_paragraphs pbp) = Inr (paragraphs_value pbp)"
proof -
  have "serialize_pages [] pbp = [] @ map serialized_page pbp"
    by (rule serialize_pages_append[OF assms]) simp
  moreover have "deserialize_pages [] (map serialized_page pbp) =
      Inr ([] @ map (\<lambda>kv. (fst kv, map fragment_value (snd kv))) pbp)"
    by (rule deserialize_pages_append[OF assms]) simp
  ultimately show ?thesis by (simp add: save_paragraphs_def paragraphs_value_def)
qed

theorem paragraphs_roundtrip_witness:
  "load_paragraphs (save_paragraphs sample_paragraphs) =
     Inr [(0, [(JStr cat_text, [JNum 72, JNum 100, JNum 172, JNum 160])]), (2, [])]"
proof -
  have d: "distinct (map fst sample_paragraphs)" by (simp add: sample_paragraphs_def)
  have v: "paragraphs_value sample_paragraphs =
      [(0, [(JStr cat_text, [JNum 72, JNum 100, JNum 172, JNum 160])]), (2, [])]"
    by (simp add: paragraphs_value_def sample_paragraphs_def fragment_value_def wide_box_def
        bx0_def bx1_def by0_def by1_def)
  show ?thesis using paragraphs_roundtrip[OF d] v by simp
qed

section \<open>Properties of the classifier\<close>

text \<open>
  C6 fails on the code.  A document with no pages makes the average divide by
  \<open>min(0, 5)\<close>, which raises \<open>ZeroDivisionError\<close>; only the ratio of a
  single page is guarded.  A page without blocks adds 0, and an average of 0.25 is
  below the threshold.
\<close>

theorem classifier_zero_pages:
  "is_image_based_pdf [] 0.3 = Inl ZeroDivisionError \<and>
   is_image_based_pdf [\<lparr>block_types = [], image_count = 0\<rparr>] 0.3 = Inr True \<and>
   is_image_based_pdf scanned_doc 0.3 = Inr True"
  by (simp add: is_image_based_pdf_def page_ratio_def scanned_doc_def)

section \<open>Properties of the image-based regeneration\<close>

lemma cat_cache_nonempty: "cat_cache \<noteq> Map.empty"
  by (simp add: cat_cache_def cache_put_def)

lemma ocr_page_raises:
  "\<not> truthy debug_mode \<Longrightarrow>
   ocr_page_step sw [(0, [(cat_text, wide_box)])] debug_mode start_page end_page 0 dims = Inl TypeError"
  by (simp add: ocr_page_step_def ocr_skip_def get_paragraphs_def bind_err_def ocr_paragraph_def
      translate_text_one_argument_def)

text \<open>
  C5 fails on the code.  On a page that has a fragment the call \<open>translate_text(text)\<close>
  raises \<open>TypeError\<close> before anything is drawn for the fragment, and no output
  file is written.  Called from \<open>main\<close> with a cache that is not empty, the
  function raises earlier, when it compares the page number with the file digest.
\<close>

theorem image_based_regeneration_raises:
  "regenerate_image_based True sample_string_width [(612, 792)] [(0, [(cat_text, wide_box)])]
     Map.empty (ascii ''d41d'') None = Inl TypeError \<and>
   regenerate_image_based True sample_string_width [(612, 792)] [(0, [(cat_text, wide_box)])]
     cat_cache (ascii ''d41d'') None = Inl TypeError \<and>
   create_translated_pdf_ocr_approach True sample_string_width [(612, 792)]
     [(0, [(cat_text, wide_box)])] (PyBool False) PyNone PyNone = Inl TypeError"
proof (intro conjI)
  show "regenerate_image_based True sample_string_width [(612, 792)] [(0, [(cat_text, wide_box)])]
     Map.empty (ascii ''d41d'') None = Inl TypeError"
    by (simp add: regenerate_image_based_def create_translated_pdf_ocr_approach_def
        ocr_page_raises bind_err_def)
  show "regenerate_image_based True sample_string_width [(612, 792)] [(0, [(cat_text, wide_box)])]
     cat_cache (ascii ''d41d'') None = Inl TypeError"
    by (simp add: regenerate_image_based_def create_translated_pdf_ocr_approach_def
        ocr_page_step_def ocr_skip_def cat_cache_nonempty bind_err_def)
  show "create_translated_pdf_ocr_approach True sample_string_width [(612, 792)]
     [(0, [(cat_text, wide_box)])] (PyBool False) PyNone PyNone = Inl TypeError"
    by (simp add: create_translated_pdf_ocr_approach_def ocr_page_raises bind_err_def)
qed

section \<open>Properties of the regenerate command\<close>

lemma starts_with_prefix: "starts_with n (n @ s)"
  by (induction n) simp_all

lemma contains_seq_prefix: "contains_seq n (n @ s)"
proof (cases "n @ s")
  case Nil
  then show ?thesis by simp
next
  case (Cons a l)
  have "starts_with n (a # l)" using starts_with_prefix[of n s] Cons by simp
  then show ?thesis using Cons by simp
qed

lemma contains_seq_infix: "contains_seq n (p @ n @ s)"
  by (induction p) (simp_all add: contains_seq_prefix)

lemma message_names_file:
  "contains_seq pf (missing_paragraphs_message pf)"
  unfolding missing_paragraphs_message_def by (rule contains_seq_infix)

lemma message_says_translate:
  "contains_seq run_translate_first (missing_paragraphs_message pf)"
proof -
  have "missing_paragraphs_message pf =
      (ascii ''Error: Paragraphs file '' @ pf @ ascii '' not found. '') @ run_translate_first @ []"
    by (simp add: missing_paragraphs_message_def)
  then show ?thesis using contains_seq_infix by metis
qed

text \<open>
  C8 (amended).  When the paragraphs file of the document does not exist, the
  regenerate command prints one message, which names the file and says to run
  \<open>translate\<close> first, writes no output PDF, and returns: the exit status is 0.
\<close>

theorem regenerate_missing_paragraphs:
  assumes "files (paragraphs_file_name file_md5) = None"
  shows "regenerate_command files file_md5 output_pdf is_image_pdf render_ocr render_clean =
           \<lparr>printed = [missing_paragraphs_message (paragraphs_file_name file_md5)],
            output_written = False, result = Done\<rparr> \<and>
         contains_seq (paragraphs_file_name file_md5)
           (missing_paragraphs_message (paragraphs_file_name file_md5)) \<and>
         contains_seq run_translate_first
           (missing_paragraphs_message (paragraphs_file_name file_md5)) \<and>
         exit_status (result (regenerate_command files file_md5 output_pdf is_image_pdf render_ocr render_clean)) = 0"
  using assms
  by (simp add: regenerate_command_def message_names_file message_says_translate exit_status_def)

theorem regenerate_missing_paragraphs_witness:
  "regenerate_command Map.empty (ascii ''d41d'') (ascii ''out.pdf'') False render_stub render_stub =
     \<lparr>printed = [missing_paragraphs_message (ascii ''d41d_paragraphs.json'')],
      output_written = False, result = Done\<rparr>"
proof -
  have f: "paragraphs_file_name (ascii ''d41d'') = ascii ''d41d_paragraphs.json''"
    by (simp add: paragraphs_file_name_def ascii_def)
  show ?thesis
    using regenerate_missing_paragraphs[of Map.empty "ascii ''d41d''" "ascii ''out.pdf''" False
        render_stub render_stub] f
    by simp
qed

text \<open>
  C8, as stated, fails: with no paragraphs file the command ends with exit status 0.
\<close>

theorem regenerate_missing_exit_status:
  "exit_status (result (regenerate_command Map.empty (ascii ''d41d'') (ascii ''out.pdf'') False render_stub render_stub)) = 0"
  by (simp add: regenerate_command_def exit_status_def)

end
